theory Spec2Isabelle
  imports Complex_Main "HOL-Library.Word"
begin

unbundle bit_operations_syntax

section \<open>Common types\<close>

text \<open>
  The ATS address-selection subsystem of GNUnet: the address registry and the
  network classifier of \<^verbatim>\<open>gnunet-service-ats_addresses.c\<close> and the
  reinforcement-learning solver of \<^verbatim>\<open>libgnunet_plugin_ats_ril.c\<close>.

  Machine integers are words of the width the C code declares. A value that the
  code keeps in network byte order (\<^verbatim>\<open>htonl\<close> on writing, \<^verbatim>\<open>ntohl\<close> on reading)
  is modelled by the number it encodes: the byte swap is a bijection that commutes
  with the bitwise operations and with equality, the only operations the code
  applies to the encoded form.
\<close>

type_synonym u8 = "8 word"
type_synonym u32 = "32 word"
type_synonym u64 = "64 word"

text \<open>
  \<^verbatim>\<open>GNUNET_assert\<close> aborts the process; \<^verbatim>\<open>Null_dereference\<close> is a read through
  a null pointer; \<^verbatim>\<open>Layout_dependent\<close> marks the places where the C code reads a
  socket address through a pointer of the other address family, whose outcome is fixed
  by the memory layout only.
\<close>

datatype error = Assertion_failed | Null_dereference | Layout_dependent

section \<open>Network classifier (\<^verbatim>\<open>GAS_addresses_type\<close>)\<close>

datatype GNUNET_ATS_Network_Type =
  GNUNET_ATS_NET_UNSPECIFIED
| GNUNET_ATS_NET_LOOPBACK
| GNUNET_ATS_NET_LAN
| GNUNET_ATS_NET_WAN
| GNUNET_ATS_NET_WLAN

text \<open>
  \<^verbatim>\<open>struct sockaddr\<close> by address family: \<^verbatim>\<open>AF_INET\<close> with its
  \<^verbatim>\<open>sin_addr.s_addr\<close>, \<^verbatim>\<open>AF_INET6\<close> with the four 32-bit words of
  \<^verbatim>\<open>sin6_addr\<close>, or another family.
\<close>

datatype sockaddr =
  Sockaddr_in u32
| Sockaddr_in6 u32 u32 u32 u32
| Sockaddr_other

record ATS_Network =
  network :: sockaddr
  netmask :: sockaddr
  net_length :: nat

text \<open>
  The \<^verbatim>\<open>while\<close> loop over the interface list, from \<^verbatim>\<open>net_head\<close> along \<^verbatim>\<open>next\<close>.
  It stops as soon as \<^verbatim>\<open>type\<close> is no longer unspecified.
\<close>

fun check_local_networks ::
  "ATS_Network list \<Rightarrow> sockaddr \<Rightarrow> nat \<Rightarrow> GNUNET_ATS_Network_Type
     \<Rightarrow> error + GNUNET_ATS_Network_Type" where
  "check_local_networks [] addr addrlen type = Inr type"
| "check_local_networks (cur # rest) addr addrlen type =
     (if type \<noteq> GNUNET_ATS_NET_UNSPECIFIED then Inr type
      else if addrlen \<noteq> net_length cur then check_local_networks rest addr addrlen type
      else (case addr of
              Sockaddr_in a4 \<Rightarrow>
                (case (network cur, netmask cur) of
                   (Sockaddr_in net4, Sockaddr_in mask4) \<Rightarrow>
                     check_local_networks rest addr addrlen
                       (if (a4 AND mask4) AND net4 = net4
                        then GNUNET_ATS_NET_LAN else type)
                 | _ \<Rightarrow> Inl Layout_dependent)
            | Sockaddr_in6 a0 a1 a2 a3 \<Rightarrow>
                (case (network cur, netmask cur) of
                   (Sockaddr_in6 n0 n1 n2 n3, Sockaddr_in6 m0 m1 m2 m3) \<Rightarrow>
                     check_local_networks rest addr addrlen
                       (if \<not> ((a0 AND m0) OR n0 \<noteq> n0 \<or> (a1 AND m1) OR n1 \<noteq> n1
                              \<or> (a2 AND m2) OR n2 \<noteq> n2 \<or> (a3 AND m3) OR n3 \<noteq> n3)
                        then GNUNET_ATS_NET_LAN else type)
                 | _ \<Rightarrow> Inl Layout_dependent)
            | Sockaddr_other \<Rightarrow> check_local_networks rest addr addrlen type))"

definition GAS_addresses_type ::
  "ATS_Network list \<Rightarrow> sockaddr \<Rightarrow> nat \<Rightarrow> error + GNUNET_ATS_Network_Type" where
  "GAS_addresses_type net_head addr addrlen =
     (let type0 = GNUNET_ATS_NET_UNSPECIFIED;
          type1 = (case addr of
                     Sockaddr_in a4 \<Rightarrow>
                       if (a4 AND 0xff000000) AND 0x7f000000 = 0x7f000000
                       then GNUNET_ATS_NET_LOOPBACK else type0
                   | _ \<Rightarrow> type0);
          type2 = (case addr of
                     Sockaddr_in6 a0 a1 a2 a3 \<Rightarrow>
                       if a0 = 0 \<and> a1 = 0 \<and> a2 = 0 \<and> a3 = 1
                       then GNUNET_ATS_NET_LOOPBACK else type1
                   | _ \<Rightarrow> type1)
      in case check_local_networks net_head addr addrlen type2 of
           Inl e \<Rightarrow> Inl e
         | Inr type3 \<Rightarrow>
             Inr (if type3 = GNUNET_ATS_NET_UNSPECIFIED then GNUNET_ATS_NET_WAN else type3))"

text \<open>The first octet of an IPv4 address in dotted notation.\<close>

definition first_octet :: "u32 \<Rightarrow> u32" where
  "first_octet a = drop_bit 24 a"

text \<open>
  \<^verbatim>\<open>interface_proc\<close> for an IPv4 interface: the stored network is the interface
  address masked with the netmask.
\<close>

definition interface_proc4 :: "u32 \<Rightarrow> u32 \<Rightarrow> nat \<Rightarrow> ATS_Network" where
  "interface_proc4 addr4 netmask4 addrlen =
     \<lparr>network = Sockaddr_in (addr4 AND netmask4), netmask = Sockaddr_in netmask4,
      net_length = addrlen\<rparr>"

section \<open>Address registry (\<^verbatim>\<open>gnunet-service-ats_addresses.c\<close>)\<close>

type_synonym GNUNET_PeerIdentity = nat

text \<open>
  The property kinds that \<^verbatim>\<open>GAS_addresses_update\<close> switches on, as decoded from the
  32-bit \<^verbatim>\<open>type\<close> of a \<^verbatim>\<open>GNUNET_ATS_Information\<close>; every other number is
  \<^verbatim>\<open>GNUNET_ATS_unsupported\<close>, the \<^verbatim>\<open>default\<close> branch.
\<close>

datatype GNUNET_ATS_Property =
  GNUNET_ATS_UTILIZATION_UP
| GNUNET_ATS_UTILIZATION_DOWN
| GNUNET_ATS_QUALITY_NET_DELAY
| GNUNET_ATS_QUALITY_NET_DISTANCE
| GNUNET_ATS_COST_WAN
| GNUNET_ATS_COST_LAN
| GNUNET_ATS_COST_WLAN
| GNUNET_ATS_unsupported u32

record GNUNET_ATS_Information =
  ats_type :: GNUNET_ATS_Property
  ats_value :: u32

text \<open>
  \<^verbatim>\<open>struct ATS_Address\<close>. The raw address is the byte list \<^verbatim>\<open>addr\<close>, whose length
  is \<^verbatim>\<open>addr_len\<close>; \<^verbatim>\<open>ats\<close> is the array of \<^verbatim>\<open>ats_count\<close> entries. The field
  \<^verbatim>\<open>active\<close> only ever holds \<^verbatim>\<open>GNUNET_YES\<close> or \<^verbatim>\<open>GNUNET_NO\<close>.
\<close>

record ATS_Address =
  peer :: GNUNET_PeerIdentity
  addr :: "u8 list"
  session_id :: u32
  ats :: "GNUNET_ATS_Information list"
  plugin :: string
  atsp_latency :: u64
  atsp_utilization_in :: u32
  atsp_utilization_out :: u32
  atsp_distance :: u32
  atsp_cost_wan :: u32
  atsp_cost_lan :: u32
  atsp_cost_wlan :: u32
  assigned_bw_in :: u32
  assigned_bw_out :: u32
  active :: bool

abbreviation addr_len :: "ATS_Address \<Rightarrow> nat" where
  "addr_len aa \<equiv> length (addr aa)"

text \<open>The calls that leave the registry, in the order the code makes them.\<close>

datatype downstream_call =
  Scheduling_transmit_address_suggestion
    GNUNET_PeerIdentity string "u8 list" u32 "GNUNET_ATS_Information list" u32 u32
| Reservations_set_bandwidth GNUNET_PeerIdentity u32
| Performance_notify_clients
    GNUNET_PeerIdentity string "u8 list" "GNUNET_ATS_Information list" u32 u32

text \<open>
  The file-scope variables. \<^verbatim>\<open>addresses\<close> is the multi-hash-map; \<^verbatim>\<open>calls\<close> records
  the calls to the scheduling, reservation and performance collaborators, oldest first;
  \<^verbatim>\<open>bandwidth_recalculations\<close> is the statistics value
  \<^verbatim>\<open># bandwidth recalculations performed\<close>.

  Modelled from the spec: the container (\<^verbatim>\<open>GNUNET_CONTAINER_multihashmap_*\<close>) is not
  among the source files. The registry maps a peer identity to its addresses and scans
  them in insertion order, so the map is the list of its entries in insertion order;
  an entry is named by its position. \<^verbatim>\<open>get_multiple\<close> visits the entries of one peer,
  \<^verbatim>\<open>iterate\<close> all of them, and an iterator may remove the entry it is visiting.
\<close>

record ats_state =
  addresses :: "ATS_Address list"
  wan_quota_in :: u64
  wan_quota_out :: u64
  active_addr_count :: u32
  calls :: "downstream_call list"
  bandwidth_recalculations :: nat

definition multihashmap_put :: "ATS_Address \<Rightarrow> ats_state \<Rightarrow> bool \<times> ats_state" where
  "multihashmap_put aa st = (True, st\<lparr>addresses := addresses st @ [aa]\<rparr>)"

definition multihashmap_remove :: "nat \<Rightarrow> ats_state \<Rightarrow> bool \<times> ats_state" where
  "multihashmap_remove i st =
     (if i < length (addresses st)
      then (True, st\<lparr>addresses := take i (addresses st) @ drop (Suc i) (addresses st)\<rparr>)
      else (False, st))"

text \<open>
  The iteration: \<^verbatim>\<open>n\<close> entries remain to be visited, the next one at position \<^verbatim>\<open>i\<close>.
  When the iterator has removed the visited entry, the next entry has moved to \<^verbatim>\<open>i\<close>.
\<close>

primrec multihashmap_visit ::
  "(ATS_Address \<Rightarrow> bool) \<Rightarrow> (nat \<Rightarrow> ats_state \<Rightarrow> error + ats_state)
     \<Rightarrow> nat \<Rightarrow> nat \<Rightarrow> ats_state \<Rightarrow> error + ats_state" where
  "multihashmap_visit sel it 0 i st = Inr st"
| "multihashmap_visit sel it (Suc n) i st =
     (if \<not> sel (addresses st ! i) then multihashmap_visit sel it n (Suc i) st
      else (case it i st of
              Inl err \<Rightarrow> Inl err
            | Inr st' \<Rightarrow>
                multihashmap_visit sel it n
                  (if length (addresses st') < length (addresses st) then i else Suc i) st'))"

definition multihashmap_iterate ::
  "(nat \<Rightarrow> ats_state \<Rightarrow> error + ats_state) \<Rightarrow> ats_state \<Rightarrow> error + ats_state" where
  "multihashmap_iterate it st = multihashmap_visit (\<lambda>aa. True) it (length (addresses st)) 0 st"

definition multihashmap_get_multiple ::
  "GNUNET_PeerIdentity \<Rightarrow> (nat \<Rightarrow> ats_state \<Rightarrow> error + ats_state)
     \<Rightarrow> ats_state \<Rightarrow> error + ats_state" where
  "multihashmap_get_multiple key it st =
     multihashmap_visit (\<lambda>aa. peer aa = key) it (length (addresses st)) 0 st"

subsection \<open>Bandwidth recalculation\<close>

definition update_bw_it :: "nat \<Rightarrow> ats_state \<Rightarrow> error + ats_state" where
  "update_bw_it i st =
     (let aa = addresses st ! i in
      if \<not> active aa then Inr st
      else if \<not> (active_addr_count st > 0) then Inl Assertion_failed
      else
        (let aa' = aa\<lparr>assigned_bw_in := ucast (wan_quota_in st div ucast (active_addr_count st)),
                      assigned_bw_out := ucast (wan_quota_out st div ucast (active_addr_count st))\<rparr>
         in Inr (st\<lparr>addresses := (addresses st)[i := aa'],
                    calls := calls st @
                      [Scheduling_transmit_address_suggestion (peer aa') (plugin aa') (addr aa')
                         (session_id aa') (ats aa') (assigned_bw_out aa') (assigned_bw_in aa'),
                       Reservations_set_bandwidth (peer aa') (assigned_bw_in aa'),
                       Performance_notify_clients (peer aa') (plugin aa') (addr aa') (ats aa')
                         (assigned_bw_out aa') (assigned_bw_in aa')]\<rparr>)))"

definition recalculate_assigned_bw :: "ats_state \<Rightarrow> error + ats_state" where
  "recalculate_assigned_bw st =
     multihashmap_iterate update_bw_it
       (st\<lparr>bandwidth_recalculations := bandwidth_recalculations st + 1\<rparr>)"

subsection \<open>Destroying addresses\<close>

text \<open>The result pairs the return value (recalculate or not) with the new state.\<close>

definition destroy_address :: "nat \<Rightarrow> ats_state \<Rightarrow> error + (bool \<times> ats_state)" where
  "destroy_address i st =
     (let a = addresses st ! i in
      case multihashmap_remove i st of
        (False, st') \<Rightarrow> Inl Assertion_failed
      | (True, st') \<Rightarrow>
          if active a
          then Inr (True, st'\<lparr>active_addr_count := active_addr_count st' - 1\<rparr>)
          else Inr (False, st'))"

text \<open>\<^verbatim>\<open>memcmp (a, b, n) == 0\<close> on buffers that hold at least \<^verbatim>\<open>n\<close> bytes.\<close>

definition memcmp_eq :: "u8 list \<Rightarrow> u8 list \<Rightarrow> nat \<Rightarrow> bool" where
  "memcmp_eq a b n = (take n a = take n b)"

definition destroy_by_session_id :: "ATS_Address \<Rightarrow> nat \<Rightarrow> ats_state \<Rightarrow> error + ats_state" where
  "destroy_by_session_id info i st =
     (let aa = addresses st ! i in
      if peer aa \<noteq> peer info then Inl Assertion_failed
      else if session_id info = 0 \<and> plugin info = plugin aa \<and> addr_len aa = addr_len info
              \<and> memcmp_eq (addr info) (addr aa) (addr_len aa)
      then (case destroy_address i st of
              Inl err \<Rightarrow> Inl err
            | Inr (True, st') \<Rightarrow> recalculate_assigned_bw st'
            | Inr (False, st') \<Rightarrow> Inr st')
      else if session_id aa \<noteq> session_id info then Inr st
      else
        (let st1 = st\<lparr>addresses := (addresses st)[i := aa\<lparr>session_id := 0\<rparr>]\<rparr>;
             r = (if active aa
                  then recalculate_assigned_bw
                         (st1\<lparr>addresses := (addresses st1)[i := (addresses st1 ! i)\<lparr>active := False\<rparr>],
                              active_addr_count := active_addr_count st1 - 1\<rparr>)
                  else Inr st1)
         in case r of
              Inl err \<Rightarrow> Inl err
            | Inr st2 \<Rightarrow>
                if addr_len aa = 0
                then (case destroy_address i st2 of
                        Inl err \<Rightarrow> Inl err
                      | Inr (ret, st3) \<Rightarrow> Inr st3)
                else Inr st2))"

text \<open>
  The query record that \<^verbatim>\<open>GAS_addresses_destroy\<close> builds on its stack; the fields it
  leaves unset are never read.
\<close>

definition zero_address :: "GNUNET_PeerIdentity \<Rightarrow> string \<Rightarrow> u8 list \<Rightarrow> u32 \<Rightarrow> ATS_Address" where
  "zero_address p plugin_name plugin_addr session =
     \<lparr>peer = p, addr = plugin_addr, session_id = session, ats = [], plugin = plugin_name,
      atsp_latency = 0, atsp_utilization_in = 0, atsp_utilization_out = 0,
      atsp_distance = 0, atsp_cost_wan = 0, atsp_cost_lan = 0, atsp_cost_wlan = 0,
      assigned_bw_in = 0, assigned_bw_out = 0, active = False\<rparr>"

definition GAS_addresses_destroy ::
  "GNUNET_PeerIdentity \<Rightarrow> string \<Rightarrow> u8 list \<Rightarrow> u32 \<Rightarrow> ats_state \<Rightarrow> error + ats_state" where
  "GAS_addresses_destroy p plugin_name plugin_addr session st =
     multihashmap_get_multiple p
       (destroy_by_session_id (zero_address p plugin_name plugin_addr session)) st"

subsection \<open>Finding and updating addresses\<close>

text \<open>\<^verbatim>\<open>True\<close> is \<^verbatim>\<open>GNUNET_YES\<close>: no match, keep iterating.\<close>

definition compare_address_it :: "ATS_Address \<Rightarrow> ATS_Address \<Rightarrow> bool" where
  "compare_address_it search aa =
     ((addr_len aa \<noteq> addr_len search \<or> plugin aa \<noteq> plugin search
        \<or> \<not> memcmp_eq (addr aa) (addr search) (addr_len aa))
      \<and> (session_id aa \<noteq> session_id search \<or> session_id search = 0))"

fun find_address_from ::
  "GNUNET_PeerIdentity \<Rightarrow> ATS_Address \<Rightarrow> ATS_Address list \<Rightarrow> nat \<Rightarrow> nat option" where
  "find_address_from p search [] i = None"
| "find_address_from p search (aa # rest) i =
     (if peer aa = p \<and> \<not> compare_address_it search aa then Some i
      else find_address_from p search rest (Suc i))"

definition find_address :: "GNUNET_PeerIdentity \<Rightarrow> ATS_Address \<Rightarrow> ats_state \<Rightarrow> nat option" where
  "find_address p search st = find_address_from p search (addresses st) 0"

definition update_property :: "GNUNET_ATS_Information \<Rightarrow> ATS_Address \<Rightarrow> ATS_Address" where
  "update_property atsi old =
     (case ats_type atsi of
        GNUNET_ATS_UTILIZATION_UP \<Rightarrow> old\<lparr>atsp_utilization_out := ats_value atsi\<rparr>
      | GNUNET_ATS_UTILIZATION_DOWN \<Rightarrow> old\<lparr>atsp_utilization_in := ats_value atsi\<rparr>
      | GNUNET_ATS_QUALITY_NET_DELAY \<Rightarrow> old\<lparr>atsp_latency := ucast (ats_value atsi)\<rparr>
      | GNUNET_ATS_QUALITY_NET_DISTANCE \<Rightarrow> old\<lparr>atsp_distance := ats_value atsi\<rparr>
      | GNUNET_ATS_COST_WAN \<Rightarrow> old\<lparr>atsp_cost_wan := ats_value atsi\<rparr>
      | GNUNET_ATS_COST_LAN \<Rightarrow> old\<lparr>atsp_cost_lan := ats_value atsi\<rparr>
      | GNUNET_ATS_COST_WLAN \<Rightarrow> old\<lparr>atsp_cost_wlan := ats_value atsi\<rparr>
      | GNUNET_ATS_unsupported t \<Rightarrow> old)"

definition GAS_addresses_update ::
  "GNUNET_PeerIdentity \<Rightarrow> string \<Rightarrow> u8 list \<Rightarrow> u32 \<Rightarrow> GNUNET_ATS_Information list
     \<Rightarrow> ats_state \<Rightarrow> error + ats_state" where
  "GAS_addresses_update p plugin_name plugin_addr session atsi st =
     (let aa = (zero_address p plugin_name plugin_addr session)\<lparr>ats := atsi\<rparr> in
      case find_address p aa st of
        None \<Rightarrow>
          (case multihashmap_put aa st of
             (False, st') \<Rightarrow> Inl Assertion_failed
           | (True, st') \<Rightarrow>
               (let old = length (addresses st) in
                Inr (st'\<lparr>addresses :=
                       (addresses st')[old := fold update_property atsi (addresses st' ! old)]\<rparr>)))
      | Some old \<Rightarrow>
          (let st' = st\<lparr>addresses :=
                         (addresses st)[old := (addresses st ! old)\<lparr>session_id := session, ats := atsi\<rparr>]\<rparr>
           in Inr (st'\<lparr>addresses :=
                     (addresses st')[old := fold update_property atsi (addresses st' ! old)]\<rparr>)))"

subsection \<open>Requesting an address\<close>

text \<open>
  \<^verbatim>\<open>find_address_it\<close>: \<^verbatim>\<open>ap\<close> is the best entry so far, \<^verbatim>\<open>i\<close> the entry visited.
\<close>

definition find_address_it :: "ATS_Address list \<Rightarrow> nat \<Rightarrow> nat option \<Rightarrow> nat option" where
  "find_address_it xs i ap =
     (case ap of
        None \<Rightarrow> Some i
      | Some b \<Rightarrow>
          (let ab = xs ! b; aa = xs ! i in
           if assigned_bw_in ab = 0 \<and> assigned_bw_in aa > 0 then Some i
           else if atsp_distance ab > atsp_distance aa then Some i
           else if atsp_latency ab > atsp_latency aa then Some i
           else Some b))"

definition find_best :: "GNUNET_PeerIdentity \<Rightarrow> ats_state \<Rightarrow> nat option" where
  "find_best p st =
     fold (\<lambda>i ap. if peer (addresses st ! i) = p then find_address_it (addresses st) i ap else ap)
       [0..<length (addresses st)] None"

definition GAS_addresses_request_address ::
  "GNUNET_PeerIdentity \<Rightarrow> ats_state \<Rightarrow> error + ats_state" where
  "GAS_addresses_request_address p st =
     (case find_best p st of
        None \<Rightarrow> Inr st
      | Some i \<Rightarrow>
          (let aa = addresses st ! i in
           if \<not> active aa
           then recalculate_assigned_bw
                  (st\<lparr>addresses := (addresses st)[i := aa\<lparr>active := True\<rparr>],
                      active_addr_count := active_addr_count st + 1\<rparr>)
           else Inr (st\<lparr>calls := calls st @
                      [Scheduling_transmit_address_suggestion p (plugin aa) (addr aa)
                         (session_id aa) (ats aa) (assigned_bw_out aa) (assigned_bw_in aa)]\<rparr>)))"

text \<open>\<^verbatim>\<open>GAS_addresses_init\<close> with the two quotas read from the configuration.\<close>

definition GAS_addresses_init :: "u64 \<Rightarrow> u64 \<Rightarrow> ats_state" where
  "GAS_addresses_init quota_in quota_out =
     \<lparr>addresses = [], wan_quota_in = quota_in, wan_quota_out = quota_out,
      active_addr_count = 0, calls = [], bandwidth_recalculations = 0\<rparr>"

text \<open>Running one operation after another; an abort ends the run.\<close>

definition and_then ::
  "error + ats_state \<Rightarrow> (ats_state \<Rightarrow> error + ats_state) \<Rightarrow> error + ats_state" where
  "and_then r f = (case r of Inl err \<Rightarrow> Inl err | Inr st \<Rightarrow> f st)"

subsection \<open>The registry in the words of the specification\<close>

text \<open>
  The share that one recalculation gives to an address: an active address gets each
  quota divided by the counter of active addresses, converted to the 32 bits of the
  bandwidth fields; an inactive address is left as it is.
\<close>

definition assign_share :: "u64 \<Rightarrow> u64 \<Rightarrow> u32 \<Rightarrow> ATS_Address \<Rightarrow> ATS_Address" where
  "assign_share quota_in quota_out cnt aa =
     (if active aa
      then aa\<lparr>assigned_bw_in := ucast (quota_in div ucast cnt),
              assigned_bw_out := ucast (quota_out div ucast cnt)\<rparr>
      else aa)"

text \<open>
  The three calls that \<^verbatim>\<open>update_bw_it\<close> makes for an active address.
\<close>

definition bw_notifications :: "ATS_Address \<Rightarrow> downstream_call list" where
  "bw_notifications aa =
     [Scheduling_transmit_address_suggestion (peer aa) (plugin aa) (addr aa)
        (session_id aa) (ats aa) (assigned_bw_out aa) (assigned_bw_in aa),
      Reservations_set_bandwidth (peer aa) (assigned_bw_in aa),
      Performance_notify_clients (peer aa) (plugin aa) (addr aa) (ats aa)
        (assigned_bw_out aa) (assigned_bw_in aa)]"

text \<open>
  The state when the entries from position \<^verbatim>\<open>i\<close> on have been recalculated.
\<close>

definition recalculated :: "ats_state \<Rightarrow> nat \<Rightarrow> ats_state" where
  "recalculated st i =
     st\<lparr>addresses := take i (addresses st) @
           map (assign_share (wan_quota_in st) (wan_quota_out st) (active_addr_count st))
             (drop i (addresses st)),
        calls := calls st @
           concat (map bw_notifications (filter active
             (map (assign_share (wan_quota_in st) (wan_quota_out st) (active_addr_count st))
               (drop i (addresses st)))))\<rparr>"

text \<open>
  The fairness scenario of the specification: four peers with one address each are
  reported and then requested, with an outbound quota of 1000.
\<close>

definition fairness_scenario :: "u64 \<Rightarrow> error + ats_state" where
  "fairness_scenario quota_in =
     and_then (and_then (and_then (and_then (and_then (and_then (and_then (and_then
       (Inr (GAS_addresses_init quota_in 1000))
       (GAS_addresses_update 1 ''tcp'' [10, 0, 0, 1] 0 []))
       (GAS_addresses_update 2 ''tcp'' [10, 0, 0, 2] 0 []))
       (GAS_addresses_update 3 ''tcp'' [10, 0, 0, 3] 0 []))
       (GAS_addresses_update 4 ''tcp'' [10, 0, 0, 4] 0 []))
       (GAS_addresses_request_address 1))
       (GAS_addresses_request_address 2))
       (GAS_addresses_request_address 3))
       (GAS_addresses_request_address 4)"

text \<open>
  The counter \<^verbatim>\<open>active_addr_count\<close> agrees with the number of active addresses.
\<close>

definition active_count_consistent :: "ats_state \<Rightarrow> bool" where
  "active_count_consistent st =
     (unat (active_addr_count st) = length (filter active (addresses st)))"

text \<open>What an update matches, in the words of the specification.\<close>

definition matches_update :: "GNUNET_PeerIdentity \<Rightarrow> string \<Rightarrow> u8 list \<Rightarrow> u32 \<Rightarrow> ATS_Address \<Rightarrow> bool" where
  "matches_update p plugin_name plugin_addr session aa =
     (peer aa = p \<and> (plugin aa = plugin_name \<and> addr aa = plugin_addr
                       \<or> session_id aa = session \<and> session \<noteq> 0))"

text \<open>
  The record that \<^verbatim>\<open>GAS_addresses_update\<close> allocates and searches for.
\<close>

definition update_query ::
  "GNUNET_PeerIdentity \<Rightarrow> string \<Rightarrow> u8 list \<Rightarrow> u32 \<Rightarrow> GNUNET_ATS_Information list \<Rightarrow> ATS_Address" where
  "update_query p plugin_name plugin_addr session atsi =
     (zero_address p plugin_name plugin_addr session)\<lparr>ats := atsi\<rparr>"

text \<open>
  An address without its assigned bandwidth, the only part that a recalculation
  changes.
\<close>

definition without_bw :: "ATS_Address \<Rightarrow> ATS_Address" where
  "without_bw aa = aa\<lparr>assigned_bw_in := 0, assigned_bw_out := 0\<rparr>"

text \<open>
  What the end of session \<^verbatim>\<open>s\<close> of peer \<^verbatim>\<open>p\<close> does to an address, in the words of
  the specification: an address of that peer with that session loses the session and
  becomes inactive, and it is removed when its raw address is empty.
\<close>

definition downgrade :: "GNUNET_PeerIdentity \<Rightarrow> u32 \<Rightarrow> ATS_Address \<Rightarrow> ATS_Address option" where
  "downgrade p s aa =
     (if peer aa = p \<and> session_id aa = s
      then (if addr aa = [] then None else Some (aa\<lparr>session_id := 0, active := False\<rparr>))
      else Some aa)"

text \<open>
  The active addresses of peer \<^verbatim>\<open>p\<close> with session \<^verbatim>\<open>s\<close>.
\<close>

definition session_active :: "GNUNET_PeerIdentity \<Rightarrow> u32 \<Rightarrow> ATS_Address \<Rightarrow> bool" where
  "session_active p s aa = (peer aa = p \<and> session_id aa = s \<and> active aa)"

text \<open>
  The query of \<^verbatim>\<open>GAS_addresses_destroy\<close> names an address itself, not a session: the
  condition of the first branch of \<^verbatim>\<open>destroy_by_session_id\<close>.
\<close>

definition names_address :: "ATS_Address \<Rightarrow> ATS_Address \<Rightarrow> bool" where
  "names_address info aa =
     (session_id info = 0 \<and> plugin info = plugin aa \<and> addr_len aa = addr_len info
      \<and> memcmp_eq (addr info) (addr aa) (addr_len aa))"

text \<open>
  The states that the three operations of the registry reach from
  \<^verbatim>\<open>GAS_addresses_init\<close>, as long as a request finds fewer than \<^verbatim>\<open>2^32\<close> addresses,
  the range of the counter \<^verbatim>\<open>active_addr_count\<close>.
\<close>

inductive registry_reachable :: "ats_state \<Rightarrow> bool" where
  reach_init: "registry_reachable (GAS_addresses_init quota_in quota_out)"
| reach_update:
    "registry_reachable st \<Longrightarrow>
     GAS_addresses_update p plugin_name plugin_addr session atsi st = Inr st' \<Longrightarrow>
     registry_reachable st'"
| reach_destroy:
    "registry_reachable st \<Longrightarrow>
     GAS_addresses_destroy p plugin_name plugin_addr session st = Inr st' \<Longrightarrow>
     registry_reachable st'"
| reach_request:
    "registry_reachable st \<Longrightarrow> length (addresses st) < 2 ^ 32 \<Longrightarrow>
     GAS_addresses_request_address p st = Inr st' \<Longrightarrow>
     registry_reachable st'"

text \<open>
  Two addresses of one peer are reported and one is requested; then a distance of 5
  is reported for the address that became active, and the peer is requested again.
\<close>

definition two_active_scenario :: "error + ats_state" where
  "two_active_scenario =
     and_then (and_then (and_then (and_then (and_then
       (Inr (GAS_addresses_init 1000 1000))
       (GAS_addresses_update 1 ''tcp'' [10, 0, 0, 1] 0 []))
       (GAS_addresses_update 1 ''tcp'' [10, 0, 0, 2] 0 []))
       (GAS_addresses_request_address 1))
       (GAS_addresses_update 1 ''tcp'' [10, 0, 0, 1] 0
          [\<lparr>ats_type = GNUNET_ATS_QUALITY_NET_DISTANCE, ats_value = 5\<rparr>]))
       (GAS_addresses_request_address 1)"

text \<open>
  One address is requested under quotas of \<^verbatim>\<open>2^32\<close> bytes per second.
\<close>

definition large_quota_scenario :: "error + ats_state" where
  "large_quota_scenario =
     and_then (and_then
       (Inr (GAS_addresses_init 4294967296 4294967296))
       (GAS_addresses_update 1 ''tcp'' [10, 0, 0, 1] 0 []))
       (GAS_addresses_request_address 1)"

text \<open>
  Three peers with one address each are requested one after the other under quotas
  of 3.
\<close>

definition repeated_share_scenario :: "error + ats_state" where
  "repeated_share_scenario =
     and_then (and_then (and_then (and_then (and_then (and_then
       (Inr (GAS_addresses_init 3 3))
       (GAS_addresses_update 1 ''tcp'' [10, 0, 0, 1] 0 []))
       (GAS_addresses_update 2 ''tcp'' [10, 0, 0, 2] 0 []))
       (GAS_addresses_update 3 ''tcp'' [10, 0, 0, 3] 0 []))
       (GAS_addresses_request_address 1))
       (GAS_addresses_request_address 2))
       (GAS_addresses_request_address 3)"

text \<open>
  Two peers, each with one active address of session 7; the address of peer 1 has an
  empty raw address.
\<close>

definition session_scenario :: "error + ats_state" where
  "session_scenario =
     and_then (and_then (and_then (and_then
       (Inr (GAS_addresses_init 1000 1000))
       (GAS_addresses_update 1 ''tcp'' [] 7 []))
       (GAS_addresses_update 2 ''tcp'' [10, 0, 0, 2] 7 []))
       (GAS_addresses_request_address 1))
       (GAS_addresses_request_address 2)"

section \<open>Reinforcement-learning solver (\<^verbatim>\<open>libgnunet_plugin_ats_ril.c\<close>)\<close>

text \<open>
  The values of type \<^verbatim>\<open>double\<close> and \<^verbatim>\<open>float\<close> are modelled as real numbers: the
  rounding of the floating-point operations is left out, their order and their
  operands are kept.

  Two constants of headers that are not among the source files are parameters:
  \<^verbatim>\<open>GNUNET_CONSTANTS_DEFAULT_BW_IN_OUT\<close>, the minimum bandwidth of a peer, and
  \<^verbatim>\<open>GNUNET_ATS_QualityPropertiesCount\<close>.
\<close>

record ril_constants =
  DEFAULT_BW_IN_OUT :: u32
  QualityPropertiesCount :: nat

definition RIL_ACTION_INVALID :: int where "RIL_ACTION_INVALID = -1"

definition RIL_ACTION_NOTHING :: int where "RIL_ACTION_NOTHING = 0"

definition RIL_ACTION_BW_IN_DBL :: int where "RIL_ACTION_BW_IN_DBL = 1"

definition RIL_ACTION_BW_IN_HLV :: int where "RIL_ACTION_BW_IN_HLV = 2"

definition RIL_ACTION_BW_IN_INC :: int where "RIL_ACTION_BW_IN_INC = 3"

definition RIL_ACTION_BW_IN_DEC :: int where "RIL_ACTION_BW_IN_DEC = 4"

definition RIL_ACTION_BW_OUT_DBL :: int where "RIL_ACTION_BW_OUT_DBL = 5"

definition RIL_ACTION_BW_OUT_HLV :: int where "RIL_ACTION_BW_OUT_HLV = 6"

definition RIL_ACTION_BW_OUT_INC :: int where "RIL_ACTION_BW_OUT_INC = 7"

definition RIL_ACTION_BW_OUT_DEC :: int where "RIL_ACTION_BW_OUT_DEC = 8"

definition RIL_ACTION_TYPE_NUM :: nat where "RIL_ACTION_TYPE_NUM = 9"

definition RIL_FEATURES_ADDRESS_COUNT :: "ril_constants \<Rightarrow> nat" where
  "RIL_FEATURES_ADDRESS_COUNT k = 3 + QualityPropertiesCount k"

definition RIL_FEATURES_NETWORK_COUNT :: nat where
  "RIL_FEATURES_NETWORK_COUNT = 4"

datatype RIL_Algorithm = RIL_ALGO_SARSA | RIL_ALGO_Q

datatype RIL_E_Modification = RIL_E_SET | RIL_E_ZERO | RIL_E_ACCUMULATE | RIL_E_REPLACE

record RIL_Learning_Parameters =
  algorithm :: RIL_Algorithm
  gamma :: real
  alpha :: real
  lambda :: real

text \<open>
  An address is a pointer to a \<^verbatim>\<open>struct ATS_Address\<close> that the ATS service owns and
  the solver reads and writes; the record holds the fields the solver uses.
  \<^verbatim>\<open>solver_information\<close> points to an entry of \<^verbatim>\<open>network_entries\<close>, given by its
  index.
\<close>

type_synonym address_ptr = nat

record solver_address =
  address_peer :: GNUNET_PeerIdentity
  address_active :: bool
  address_assigned_bw_in :: u32
  address_assigned_bw_out :: u32
  solver_information :: nat

record RIL_Peer_Agent =
  agent_peer :: GNUNET_PeerIdentity
  agent_active :: bool
  step_count :: nat
  agent_W :: "real list list"
  agent_m :: nat
  agent_n :: nat
  s_old :: "real list"
  a_old :: int
  agent_e :: "real list"
  address_inuse :: "address_ptr option"
  agent_addresses :: "address_ptr list"
  bw_in :: u64
  bw_out :: u64

record RIL_Network =
  net_type :: GNUNET_ATS_Network_Type
  bw_in_available :: u64
  bw_in_assigned :: u64
  bw_out_available :: u64
  bw_out_assigned :: u64

text \<open>
  The solver handle with the objects it reaches: \<^verbatim>\<open>heap\<close> holds the addresses,
  \<^verbatim>\<open>agents\<close> is the list from \<^verbatim>\<open>agents_head\<close>, \<^verbatim>\<open>bandwidth_changed\<close> records
  the calls of \<^verbatim>\<open>bandwidth_changed_cb\<close>, oldest first, each with the address it
  was given as that address was at the call, and \<^verbatim>\<open>get_property\<close> is the callback
  of the plugin environment that returns the quality properties of an address.
\<close>

record GAS_RIL_Handle =
  parameters :: RIL_Learning_Parameters
  network_entries :: "RIL_Network list"
  agents :: "RIL_Peer_Agent list"
  heap :: "address_ptr \<Rightarrow> solver_address"
  bandwidth_changed :: "(address_ptr \<times> solver_address) list"
  get_property :: "address_ptr \<Rightarrow> real list"
  solver_step_count :: nat

subsection \<open>Learning\<close>

definition agent_estimate_q :: "RIL_Peer_Agent \<Rightarrow> real list \<Rightarrow> nat \<Rightarrow> real" where
  "agent_estimate_q agent state action =
     fold (\<lambda>i result. result + state ! i * (agent_W agent ! action) ! i) [0..<agent_m agent] 0"

text \<open>The largest finite \<^verbatim>\<open>double\<close>.\<close>

definition DBL_MAX :: real where
  "DBL_MAX = (2 - 1 / 2 ^ 52) * 2 ^ 1023"

definition agent_get_action_best :: "RIL_Peer_Agent \<Rightarrow> real list \<Rightarrow> error + int" where
  "agent_get_action_best agent state =
     (let (max_i, max_q) =
            fold (\<lambda>i (max_i, max_q).
                    let cur_q = agent_estimate_q agent state i
                    in if cur_q > max_q then (int i, cur_q) else (max_i, max_q))
              [0..<agent_n agent] (RIL_ACTION_INVALID, - DBL_MAX)
      in if RIL_ACTION_INVALID \<noteq> max_i then Inr max_i else Inl Assertion_failed)"

definition agent_update_weights ::
  "RIL_Learning_Parameters \<Rightarrow> RIL_Peer_Agent \<Rightarrow> real \<Rightarrow> real list \<Rightarrow> int \<Rightarrow> RIL_Peer_Agent" where
  "agent_update_weights par agent reward s_next a_prime =
     (let delta = reward + agent_estimate_q agent s_next (nat a_prime)
                    - agent_estimate_q agent (s_old agent) (nat (a_old agent));
          theta = agent_W agent ! nat (a_old agent);
          theta' = fold (\<lambda>i th. th[i := th ! i + alpha par * delta * agent_e agent ! i])
                     [0..<agent_m agent] theta
      in agent\<lparr>agent_W := (agent_W agent)[nat (a_old agent) := theta']\<rparr>)"

definition agent_modify_eligibility ::
  "RIL_Learning_Parameters \<Rightarrow> RIL_E_Modification \<Rightarrow> RIL_Peer_Agent \<Rightarrow> RIL_Peer_Agent" where
  "agent_modify_eligibility par modification agent =
     agent\<lparr>agent_e := fold (\<lambda>i ev.
                  case modification of
                    RIL_E_ACCUMULATE \<Rightarrow> ev[i := ev ! i + 1]
                  | RIL_E_REPLACE \<Rightarrow> ev[i := 1]
                  | RIL_E_SET \<Rightarrow> ev[i := gamma par * lambda par]
                  | RIL_E_ZERO \<Rightarrow> ev[i := 0])
                [0..<agent_m agent] (agent_e agent)\<rparr>"

subsection \<open>Suggestions\<close>

text \<open>
  \<^verbatim>\<open>envi_set_active_suggestion\<close> on the agent at position \<^verbatim>\<open>k\<close> of the agent list.
\<close>

definition envi_set_active_suggestion ::
  "GAS_RIL_Handle \<Rightarrow> nat \<Rightarrow> address_ptr option \<Rightarrow> u64 \<Rightarrow> u64 \<Rightarrow> bool
     \<Rightarrow> error + GAS_RIL_Handle" where
  "envi_set_active_suggestion solver k new_address new_bw_in new_bw_out silent =
     (let agent = agents solver ! k;
          changed = (address_inuse agent \<noteq> new_address);
          h1 = (if changed
                then (case address_inuse agent of
                        None \<Rightarrow> heap solver
                      | Some old \<Rightarrow>
                          (heap solver)(old := (heap solver old)
                             \<lparr>address_active := False, address_assigned_bw_in := 0,
                              address_assigned_bw_out := 0\<rparr>))
                else heap solver);
          h2 = (if changed
                then (case new_address of
                        None \<Rightarrow> h1
                      | Some new \<Rightarrow>
                          h1(new := (h1 new)
                             \<lparr>address_active := agent_active agent,
                              address_assigned_bw_in := ucast (bw_in agent),
                              address_assigned_bw_out := ucast (bw_out agent)\<rparr>))
                else h1);
          notify1 = changed;
          h3 = (case new_address of
                  None \<Rightarrow> h2
                | Some new \<Rightarrow>
                    (if address_active (h2 new) \<noteq> agent_active agent
                     then h2(new := (h2 new)\<lparr>address_active := agent_active agent\<rparr>)
                     else h2));
          in_changed = (new_address \<noteq> None \<and> bw_in agent \<noteq> new_bw_in);
          agent1 = (if in_changed then agent\<lparr>bw_in := new_bw_in\<rparr> else agent);
          h4 = (case new_address of
                  None \<Rightarrow> h3
                | Some new \<Rightarrow>
                    (if in_changed
                     then h3(new := (h3 new)\<lparr>address_assigned_bw_in := ucast new_bw_out\<rparr>)
                     else h3));
          out_changed = (new_address \<noteq> None \<and> bw_out agent1 \<noteq> new_bw_out);
          agent2 = (if out_changed then agent1\<lparr>bw_out := new_bw_out\<rparr> else agent1);
          h5 = (case new_address of
                  None \<Rightarrow> h4
                | Some new \<Rightarrow>
                    (if out_changed
                     then h4(new := (h4 new)\<lparr>address_assigned_bw_out := ucast new_bw_out\<rparr>)
                     else h4));
          notify = (notify1 \<or> in_changed \<or> out_changed)
      in if notify \<and> agent_active agent2 \<and> \<not> silent
         then (case new_address of
                 Some new \<Rightarrow>
                   Inr (solver\<lparr>agents := (agents solver)[k := agent2\<lparr>address_inuse := new_address\<rparr>],
                              heap := h5,
                              bandwidth_changed := bandwidth_changed solver @ [(new, h5 new)]\<rparr>)
               | None \<Rightarrow>
                   (case address_inuse agent2 of
                      Some old \<Rightarrow>
                        if address_assigned_bw_in (h5 old) \<noteq> 0
                           \<or> address_assigned_bw_out (h5 old) \<noteq> 0
                        then Inl Assertion_failed
                        else Inr (solver\<lparr>agents := (agents solver)
                                     [k := agent2\<lparr>bw_in := 0, bw_out := 0, address_inuse := new_address\<rparr>],
                                   heap := h5,
                                   bandwidth_changed := bandwidth_changed solver @ [(old, h5 old)]\<rparr>)
                    | None \<Rightarrow>
                        Inr (solver\<lparr>agents := (agents solver)[k := agent2\<lparr>address_inuse := new_address\<rparr>],
                                   heap := h5\<rparr>)))
         else Inr (solver\<lparr>agents := (agents solver)[k := agent2\<lparr>address_inuse := new_address\<rparr>],
                         heap := h5\<rparr>))"

subsection \<open>Actions\<close>

definition envi_action_bw_double :: "GAS_RIL_Handle \<Rightarrow> nat \<Rightarrow> bool \<Rightarrow> error + GAS_RIL_Handle" where
  "envi_action_bw_double solver k direction_in =
     (let agent = agents solver ! k in
      if direction_in
      then envi_set_active_suggestion solver k (address_inuse agent)
             (bw_in agent * 2) (bw_out agent) False
      else envi_set_active_suggestion solver k (address_inuse agent)
             (bw_in agent) (bw_out agent * 2) False)"

definition envi_action_bw_halven ::
  "ril_constants \<Rightarrow> GAS_RIL_Handle \<Rightarrow> nat \<Rightarrow> bool \<Rightarrow> error + GAS_RIL_Handle" where
  "envi_action_bw_halven c solver k direction_in =
     (let agent = agents solver ! k;
          min_bw = DEFAULT_BW_IN_OUT c
      in if direction_in
         then (let new_bw = bw_in agent div 2;
                   new_bw = (if new_bw < ucast min_bw then ucast min_bw else new_bw)
               in envi_set_active_suggestion solver k (address_inuse agent)
                    new_bw (bw_out agent) False)
         else (let new_bw = bw_out agent div 2;
                   new_bw = (if new_bw < ucast min_bw then ucast min_bw else new_bw)
               in envi_set_active_suggestion solver k (address_inuse agent)
                    (bw_in agent) new_bw False))"

text \<open>
  \<^verbatim>\<open>5 * min_bw\<close> is a product of an \<^verbatim>\<open>int\<close> and a \<^verbatim>\<open>uint32_t\<close>, computed in
  32 bits, and then widened to 64 bits for the sum or the difference.
\<close>

definition envi_action_bw_inc ::
  "ril_constants \<Rightarrow> GAS_RIL_Handle \<Rightarrow> nat \<Rightarrow> bool \<Rightarrow> error + GAS_RIL_Handle" where
  "envi_action_bw_inc c solver k direction_in =
     (let agent = agents solver ! k;
          min_bw = DEFAULT_BW_IN_OUT c
      in if direction_in
         then envi_set_active_suggestion solver k (address_inuse agent)
                (bw_in agent + ucast (5 * min_bw)) (bw_out agent) False
         else envi_set_active_suggestion solver k (address_inuse agent)
                (bw_in agent) (bw_out agent + ucast (5 * min_bw)) False)"

definition envi_action_bw_dec ::
  "ril_constants \<Rightarrow> GAS_RIL_Handle \<Rightarrow> nat \<Rightarrow> bool \<Rightarrow> error + GAS_RIL_Handle" where
  "envi_action_bw_dec c solver k direction_in =
     (let agent = agents solver ! k;
          min_bw = DEFAULT_BW_IN_OUT c
      in if direction_in
         then (let new_bw = bw_in agent - ucast (5 * min_bw);
                   new_bw = (if new_bw < ucast min_bw then ucast min_bw else new_bw)
               in envi_set_active_suggestion solver k (address_inuse agent)
                    new_bw (bw_out agent) False)
         else (let new_bw = bw_out agent - ucast (5 * min_bw);
                   new_bw = (if new_bw < ucast min_bw then ucast min_bw else new_bw)
               in envi_set_active_suggestion solver k (address_inuse agent)
                    (bw_in agent) new_bw False))"

definition envi_action_address_switch ::
  "GAS_RIL_Handle \<Rightarrow> nat \<Rightarrow> nat \<Rightarrow> error + GAS_RIL_Handle" where
  "envi_action_address_switch solver k address_index =
     (let agent = agents solver ! k in
      if address_index < length (agent_addresses agent)
      then envi_set_active_suggestion solver k (Some (agent_addresses agent ! address_index))
             (bw_in agent) (bw_out agent) False
      else Inl Assertion_failed)"

fun agent_address_get_index_from :: "address_ptr list \<Rightarrow> address_ptr \<Rightarrow> int \<Rightarrow> int" where
  "agent_address_get_index_from [] address i = i"
| "agent_address_get_index_from (cur # rest) address i =
     (if cur = address then i + 1 else agent_address_get_index_from rest address (i + 1))"

definition agent_address_get_index :: "RIL_Peer_Agent \<Rightarrow> address_ptr \<Rightarrow> int" where
  "agent_address_get_index agent address =
     agent_address_get_index_from (agent_addresses agent) address (- 1)"

definition agent_address_get :: "RIL_Peer_Agent \<Rightarrow> address_ptr \<Rightarrow> address_ptr option" where
  "agent_address_get agent address =
     (if address \<in> set (agent_addresses agent) then Some address else None)"

definition envi_do_action ::
  "ril_constants \<Rightarrow> GAS_RIL_Handle \<Rightarrow> nat \<Rightarrow> int \<Rightarrow> error + GAS_RIL_Handle" where
  "envi_do_action c solver k action =
     (let agent = agents solver ! k in
      if action = RIL_ACTION_NOTHING then Inr solver
      else if action = RIL_ACTION_BW_IN_DBL then envi_action_bw_double solver k True
      else if action = RIL_ACTION_BW_IN_HLV then envi_action_bw_halven c solver k True
      else if action = RIL_ACTION_BW_IN_INC then envi_action_bw_inc c solver k True
      else if action = RIL_ACTION_BW_IN_DEC then envi_action_bw_dec c solver k True
      else if action = RIL_ACTION_BW_OUT_DBL then envi_action_bw_double solver k False
      else if action = RIL_ACTION_BW_OUT_HLV then envi_action_bw_halven c solver k False
      else if action = RIL_ACTION_BW_OUT_INC then envi_action_bw_inc c solver k False
      else if action = RIL_ACTION_BW_OUT_DEC then envi_action_bw_dec c solver k False
      else if action \<ge> int RIL_ACTION_TYPE_NUM \<and> action < int (agent_n agent)
      then (let address_index = action - int RIL_ACTION_TYPE_NUM in
            if \<not> address_index \<ge> 0 then Inl Assertion_failed
            else if agent_addresses agent = [] then Inl Null_dereference
            else if \<not> address_index
                        \<le> agent_address_get_index agent (last (agent_addresses agent))
            then Inl Assertion_failed
            else envi_action_address_switch solver k (nat address_index))
      else Inl Assertion_failed)"

subsection \<open>The learning step\<close>

definition envi_get_state :: "ril_constants \<Rightarrow> GAS_RIL_Handle \<Rightarrow> RIL_Peer_Agent \<Rightarrow> real list" where
  "envi_get_state c solver agent =
     concat (map (\<lambda>net. [real (unat (bw_in_assigned net)), real (unat (bw_in_available net)),
                          real (unat (bw_out_assigned net)), real (unat (bw_out_available net))])
               (network_entries solver))
     @ concat (map (\<lambda>a. [if address_active (heap solver a) then 1 else 0,
                          if address_active (heap solver a) then real (unat (bw_in agent)) else 0,
                          if address_active (heap solver a) then real (unat (bw_out agent)) else 0]
                         @ take (QualityPropertiesCount c) (get_property solver a))
                 (agent_addresses agent))"

text \<open>
  \<^verbatim>\<open>agent_step\<close> on the agent at position \<^verbatim>\<open>k\<close>. The reward is what
  \<^verbatim>\<open>envi_get_reward\<close> returns, \<^verbatim>\<open>explore\<close> is the outcome of
  \<^verbatim>\<open>agent_decide_exploration\<close> and \<^verbatim>\<open>random_action\<close> the action that
  \<^verbatim>\<open>agent_get_action_explore\<close> draws.
\<close>

definition agent_step ::
  "ril_constants \<Rightarrow> GAS_RIL_Handle \<Rightarrow> nat \<Rightarrow> real \<Rightarrow> bool \<Rightarrow> int \<Rightarrow> error + GAS_RIL_Handle" where
  "agent_step c solver k reward explore random_action =
     (let par = parameters solver;
          agent = agents solver ! k;
          s_next = envi_get_state c solver agent;
          learned =
            (case algorithm par of
               RIL_ALGO_SARSA \<Rightarrow>
                 (let agent1 = agent_modify_eligibility par RIL_E_SET agent in
                  case (if explore then Inr random_action
                        else agent_get_action_best agent1 s_next) of
                    Inl err \<Rightarrow> Inl err
                  | Inr a_next \<Rightarrow>
                      Inr (if RIL_ACTION_INVALID \<noteq> a_old agent1
                           then agent_update_weights par agent1 reward s_next a_next
                           else agent1, a_next))
             | RIL_ALGO_Q \<Rightarrow>
                 (case agent_get_action_best agent s_next of
                    Inl err \<Rightarrow> Inl err
                  | Inr a_best \<Rightarrow>
                      (let agent1 = (if RIL_ACTION_INVALID \<noteq> a_old agent
                                     then agent_update_weights par agent reward s_next a_best
                                     else agent)
                       in if explore
                          then Inr (agent_modify_eligibility par RIL_E_ZERO agent1, random_action)
                          else (case agent_get_action_best agent1 s_next of
                                  Inl err \<Rightarrow> Inl err
                                | Inr a_next \<Rightarrow>
                                    Inr (agent_modify_eligibility par RIL_E_SET agent1, a_next)))))
      in case learned of
           Inl err \<Rightarrow> Inl err
         | Inr (agent2, a_next) \<Rightarrow>
             if \<not> RIL_ACTION_INVALID \<noteq> a_next then Inl Assertion_failed
             else
               (let agent3 = agent_modify_eligibility par RIL_E_ACCUMULATE agent2 in
                case envi_do_action c (solver\<lparr>agents := (agents solver)[k := agent3]\<rparr>) k a_next of
                  Inl err \<Rightarrow> Inl err
                | Inr solver' \<Rightarrow>
                    Inr (solver'\<lparr>agents := (agents solver')
                           [k := (agents solver' ! k)
                              \<lparr>s_old := s_next, a_old := a_next,
                               step_count := step_count (agents solver' ! k) + 1\<rparr>]\<rparr>)))"

text \<open>The body of the loop of \<^verbatim>\<open>ril_periodic_step\<close> for the agent at position \<^verbatim>\<open>k\<close>.\<close>

definition ril_periodic_step_agent ::
  "ril_constants \<Rightarrow> GAS_RIL_Handle \<Rightarrow> nat \<Rightarrow> real \<Rightarrow> bool \<Rightarrow> int \<Rightarrow> error + GAS_RIL_Handle" where
  "ril_periodic_step_agent c solver k reward explore random_action =
     (let cur = agents solver ! k in
      if agent_active cur \<and> address_inuse cur \<noteq> None
      then agent_step c solver k reward explore random_action
      else Inr solver)"

subsection \<open>Agents and networks\<close>

definition agent_init ::
  "ril_constants \<Rightarrow> GAS_RIL_Handle \<Rightarrow> GNUNET_PeerIdentity \<Rightarrow> GAS_RIL_Handle" where
  "agent_init c solver p =
     (let agent0 = \<lparr>agent_peer = p, agent_active = False, step_count = 0,
                     agent_W = replicate RIL_ACTION_TYPE_NUM
                           (replicate (length (network_entries solver) * RIL_FEATURES_NETWORK_COUNT) 0),
                     agent_m = length (network_entries solver) * RIL_FEATURES_NETWORK_COUNT,
                     agent_n = RIL_ACTION_TYPE_NUM,
                     s_old = [], a_old = RIL_ACTION_INVALID,
                     agent_e = replicate (length (network_entries solver) * RIL_FEATURES_NETWORK_COUNT) 0,
                     address_inuse = None, agent_addresses = [], bw_in = 0, bw_out = 0\<rparr>;
          agent1 = agent0\<lparr>s_old := envi_get_state c solver agent0\<rparr>;
          agent2 = agent_modify_eligibility (parameters solver) RIL_E_ZERO agent1
      in solver\<lparr>agents := agents solver @ [agent2]\<rparr>)"

fun ril_find_agent :: "RIL_Peer_Agent list \<Rightarrow> GNUNET_PeerIdentity \<Rightarrow> nat \<Rightarrow> nat option" where
  "ril_find_agent [] p i = None"
| "ril_find_agent (cur # rest) p i =
     (if p = agent_peer cur then Some i else ril_find_agent rest p (Suc i))"

text \<open>The agent is returned as its position in the list of the new handle.\<close>

definition ril_get_agent ::
  "ril_constants \<Rightarrow> GAS_RIL_Handle \<Rightarrow> GNUNET_PeerIdentity \<Rightarrow> bool \<Rightarrow> GAS_RIL_Handle \<times> nat option" where
  "ril_get_agent c solver p create =
     (case ril_find_agent (agents solver) p 0 of
        Some k \<Rightarrow> (solver, Some k)
      | None \<Rightarrow>
          if create then (agent_init c solver p, Some (length (agents solver)))
          else (solver, None))"

fun ril_find_network :: "RIL_Network list \<Rightarrow> GNUNET_ATS_Network_Type \<Rightarrow> nat \<Rightarrow> nat option" where
  "ril_find_network [] t i = None"
| "ril_find_network (cur # rest) t i =
     (if net_type cur = t then Some i else ril_find_network rest t (Suc i))"

definition ril_get_network :: "GAS_RIL_Handle \<Rightarrow> GNUNET_ATS_Network_Type \<Rightarrow> nat option" where
  "ril_get_network s t = ril_find_network (network_entries s) t 0"

definition ril_network_is_active ::
  "ril_constants \<Rightarrow> GAS_RIL_Handle \<Rightarrow> GNUNET_ATS_Network_Type \<Rightarrow> error + bool" where
  "ril_network_is_active c solver t =
     (case ril_get_network solver t of
        None \<Rightarrow> Inl Null_dereference
      | Some i \<Rightarrow>
          Inr (\<not> bw_out_available (network_entries solver ! i) < ucast (DEFAULT_BW_IN_OUT c)))"

subsection \<open>Resizing the vectors\<close>

text \<open>
  Modelled from the spec: the macro \<^verbatim>\<open>GNUNET_array_grow\<close> is not among the source
  files. It changes the length of a vector from \<^verbatim>\<open>size\<close> to \<^verbatim>\<open>tsize\<close>, keeps the
  elements that fit and fills new ones with zero.
\<close>

definition GNUNET_array_grow :: "'a \<Rightarrow> 'a list \<Rightarrow> nat \<Rightarrow> nat \<Rightarrow> 'a list" where
  "GNUNET_array_grow z arr sz tsize =
     take (min sz tsize) arr @ replicate (tsize - min sz tsize) z"

definition ril_cut_from_vector :: "'a list \<Rightarrow> nat \<Rightarrow> nat \<Rightarrow> nat \<Rightarrow> error + 'a list" where
  "ril_cut_from_vector old hole_start hole_length old_length =
     (if \<not> old_length > hole_length then Inl Assertion_failed
      else if \<not> old_length \<ge> hole_start + hole_length then Inl Assertion_failed
      else Inr (take hole_start old
                @ take (old_length - hole_start - hole_length)
                    (drop (hole_start + hole_length) old)))"

text \<open>The loop that cuts the same slice from every row of \<^verbatim>\<open>W\<close>.\<close>

fun cut_rows :: "real list list \<Rightarrow> nat \<Rightarrow> nat \<Rightarrow> nat \<Rightarrow> error + real list list" where
  "cut_rows [] hole_start hole_length old_length = Inr []"
| "cut_rows (row # rows) hole_start hole_length old_length =
     (case ril_cut_from_vector row hole_start hole_length old_length of
        Inl err \<Rightarrow> Inl err
      | Inr row' \<Rightarrow>
          (case cut_rows rows hole_start hole_length old_length of
             Inl err \<Rightarrow> Inl err
           | Inr rows' \<Rightarrow> Inr (row' # rows')))"

subsection \<open>Adding and deleting addresses\<close>

definition add_bw_assigned :: "nat \<Rightarrow> u64 \<Rightarrow> u64 \<Rightarrow> RIL_Network list \<Rightarrow> RIL_Network list" where
  "add_bw_assigned i d_in d_out nets =
     nets[i := (nets ! i)\<lparr>bw_in_assigned := bw_in_assigned (nets ! i) + d_in,
                         bw_out_assigned := bw_out_assigned (nets ! i) + d_out\<rparr>]"

definition GAS_ril_address_add ::
  "ril_constants \<Rightarrow> GAS_RIL_Handle \<Rightarrow> address_ptr \<Rightarrow> GNUNET_ATS_Network_Type
     \<Rightarrow> error + GAS_RIL_Handle" where
  "GAS_ril_address_add c s address network_type =
     (let min_bw = DEFAULT_BW_IN_OUT c in
      case ril_get_network s network_type of
        None \<Rightarrow> Inl Null_dereference
      | Some net \<Rightarrow>
          (let s1 = s\<lparr>heap := (heap s)(address := (heap s address)\<lparr>solver_information := net\<rparr>)\<rparr> in
           case ril_network_is_active c s1 network_type of
             Inl err \<Rightarrow> Inl err
           | Inr False \<Rightarrow> Inr s1
           | Inr True \<Rightarrow>
               (case ril_get_agent c s1 (address_peer (heap s1 address)) True of
                  (s2, None) \<Rightarrow> Inl Null_dereference
                | (s2, Some k) \<Rightarrow>
                    (let agent = agents s2 ! k;
                         m_new = agent_m agent + RIL_FEATURES_ADDRESS_COUNT c;
                         m_old = agent_m agent;
                         n_new = agent_n agent + 1;
                         n_old = agent_n agent;
                         W1 = GNUNET_array_grow [] (agent_W agent) n_old n_new;
                         W2 = map (\<lambda>i. if i < n_old
                                         then GNUNET_array_grow 0 (W1 ! i) m_old m_new
                                         else GNUNET_array_grow 0 (W1 ! i) 0 m_new)
                                [0..<n_new];
                         agent' = agent\<lparr>agent_addresses := agent_addresses agent @ [address],
                                        agent_W := W2, agent_n := n_new, agent_m := m_new,
                                        s_old := GNUNET_array_grow 0 (s_old agent) m_old m_new,
                                        agent_e := GNUNET_array_grow 0 (agent_e agent) m_old m_new\<rparr>;
                         s3 = s2\<lparr>agents := (agents s2)[k := agent']\<rparr>
                     in if address_inuse agent' = None
                        then envi_set_active_suggestion
                               (s3\<lparr>network_entries :=
                                     add_bw_assigned net (ucast min_bw) (ucast min_bw)
                                       (network_entries s3)\<rparr>)
                               k (Some address) (ucast min_bw) (ucast min_bw) False
                        else Inr s3))))"

definition GAS_ril_address_delete ::
  "ril_constants \<Rightarrow> GAS_RIL_Handle \<Rightarrow> address_ptr \<Rightarrow> bool \<Rightarrow> error + GAS_RIL_Handle" where
  "GAS_ril_address_delete c s address session_only =
     (let address_was_used = address_active (heap s address);
          min_bw = DEFAULT_BW_IN_OUT c;
          inactive_network =
            (let net = solver_information (heap s address) in
             if \<not> net < length (network_entries s) then Inl Null_dereference
             else (case ril_network_is_active c s (net_type (network_entries s ! net)) of
                     Inl err \<Rightarrow> Inl err
                   | Inr True \<Rightarrow> Inl Assertion_failed
                   | Inr False \<Rightarrow> Inr s))
      in case ril_get_agent c s (address_peer (heap s address)) False of
           (s0, None) \<Rightarrow> inactive_network
         | (s0, Some k) \<Rightarrow>
             (let agent = agents s ! k;
                  address_index = agent_address_get_index agent address
              in case agent_address_get agent address of
                   None \<Rightarrow> inactive_network
                 | Some address_wrapped \<Rightarrow>
                     (let remaining = remove1 address_wrapped (agent_addresses agent);
                          m_new = agent_m agent - RIL_FEATURES_ADDRESS_COUNT c;
                          n_new = agent_n agent - 1;
                          hole_start = length (network_entries s) * RIL_FEATURES_NETWORK_COUNT
                                         + nat address_index * RIL_FEATURES_ADDRESS_COUNT c
                      in case cut_rows (take (agent_n agent) (agent_W agent)) hole_start
                                (RIL_FEATURES_ADDRESS_COUNT c) (agent_m agent) of
                           Inl err \<Rightarrow> Inl err
                         | Inr W1 \<Rightarrow>
                       (case ril_cut_from_vector W1 (RIL_ACTION_TYPE_NUM + nat address_index)
                                1 (agent_n agent) of
                           Inl err \<Rightarrow> Inl err
                         | Inr W2 \<Rightarrow>
                       (let a_old' =
                              (if a_old agent > int RIL_ACTION_TYPE_NUM + address_index
                               then a_old agent - 1
                               else if a_old agent = int RIL_ACTION_TYPE_NUM + address_index
                               then RIL_ACTION_INVALID
                               else a_old agent)
                        in case ril_cut_from_vector (s_old agent) hole_start
                                  (RIL_FEATURES_ADDRESS_COUNT c) (agent_m agent) of
                             Inl err \<Rightarrow> Inl err
                           | Inr s_old' \<Rightarrow>
                         (case ril_cut_from_vector (agent_e agent) hole_start
                                  (RIL_FEATURES_ADDRESS_COUNT c) (agent_m agent) of
                             Inl err \<Rightarrow> Inl err
                           | Inr e' \<Rightarrow>
                         (let agent' = agent\<lparr>agent_addresses := remaining, agent_W := W2,
                                              a_old := a_old', s_old := s_old', agent_e := e',
                                              agent_m := m_new, agent_n := n_new\<rparr>;
                              s1 = s\<lparr>agents := (agents s)[k := agent']\<rparr>
                          in if address_was_used
                             then (let net = solver_information (heap s1 address);
                                       s2 = s1\<lparr>network_entries :=
                                              add_bw_assigned net (- bw_in agent') (- bw_out agent')
                                                (network_entries s1)\<rparr>
                                   in case agent_addresses agent' of
                                        head # rest \<Rightarrow>
                                          (case envi_set_active_suggestion s2 k (Some head)
                                                  (ucast min_bw) (ucast min_bw) False of
                                             Inl err \<Rightarrow> Inl err
                                           | Inr s3 \<Rightarrow>
                                               Inr (s3\<lparr>network_entries :=
                                                      add_bw_assigned (solver_information (heap s3 head))
                                                        (- ucast min_bw) (- ucast min_bw)
                                                        (network_entries s3)\<rparr>))
                                      | [] \<Rightarrow> envi_set_active_suggestion s2 k None 0 0 False)
                             else Inr s1)))))))"

definition GAS_ril_get_preferred_address ::
  "ril_constants \<Rightarrow> GAS_RIL_Handle \<Rightarrow> GNUNET_PeerIdentity
     \<Rightarrow> error + (GAS_RIL_Handle \<times> address_ptr option)" where
  "GAS_ril_get_preferred_address c s p =
     (case ril_get_agent c s p True of
        (s1, None) \<Rightarrow> Inl Null_dereference
      | (s1, Some k) \<Rightarrow>
          (let agent = (agents s1 ! k)\<lparr>agent_active := True\<rparr>;
               s2 = s1\<lparr>agents := (agents s1)[k := agent]\<rparr>;
               s3 = (case address_inuse agent of
                       None \<Rightarrow> s2
                     | Some a \<Rightarrow>
                         s2\<lparr>network_entries :=
                               add_bw_assigned (solver_information (heap s2 a))
                                 (bw_in agent) (bw_out agent) (network_entries s2)\<rparr>)
           in case envi_set_active_suggestion s3 k (address_inuse agent)
                     (bw_in agent) (bw_out agent) True of
                Inl err \<Rightarrow> Inl err
              | Inr s4 \<Rightarrow> Inr (s4, address_inuse (agents s4 ! k))))"

text \<open>
  \<^verbatim>\<open>libgnunet_plugin_ats_ril_init\<close>: the learning parameters, the networks with their
  quotas and the callbacks come from the plugin environment.
\<close>

definition libgnunet_plugin_ats_ril_init ::
  "RIL_Learning_Parameters \<Rightarrow> (GNUNET_ATS_Network_Type \<times> u64 \<times> u64) list
     \<Rightarrow> (address_ptr \<Rightarrow> solver_address) \<Rightarrow> (address_ptr \<Rightarrow> real list) \<Rightarrow> GAS_RIL_Handle" where
  "libgnunet_plugin_ats_ril_init par quotas addresses_heap property_cb =
     \<lparr>parameters = par,
      network_entries =
        map (\<lambda>(t, in_quota, out_quota).
               \<lparr>net_type = t, bw_in_available = in_quota, bw_in_assigned = 0,
                bw_out_available = out_quota, bw_out_assigned = 0\<rparr>) quotas,
      agents = [], heap = addresses_heap, bandwidth_changed = [],
      get_property = property_cb, solver_step_count = 0\<rparr>"

definition example_constants :: ril_constants where
  "example_constants = \<lparr>DEFAULT_BW_IN_OUT = 1024, QualityPropertiesCount = 2\<rparr>"

text \<open>The weight matrix after one more address, in the words of the specification.\<close>

definition grown_W :: "nat \<Rightarrow> real list list \<Rightarrow> nat \<Rightarrow> real list list" where
  "grown_W features W0 m0 =
     map (\<lambda>row. row @ replicate features 0) W0 @ [replicate (m0 + features) 0]"

text \<open>A vector without the slice of \<^verbatim>\<open>len\<close> elements that starts at \<^verbatim>\<open>start\<close>.\<close>

definition without_slice :: "nat \<Rightarrow> nat \<Rightarrow> 'a list \<Rightarrow> 'a list" where
  "without_slice start len xs = take start xs @ drop (start + len) xs"

text \<open>The agent at position \<^verbatim>\<open>k\<close> with another stored last action.\<close>

definition with_last_action :: "GAS_RIL_Handle \<Rightarrow> nat \<Rightarrow> int \<Rightarrow> GAS_RIL_Handle" where
  "with_last_action s k a = s\<lparr>agents := (agents s)[k := (agents s ! k)\<lparr>a_old := a\<rparr>]\<rparr>"

text \<open>
  A solver with one WAN network and one agent: the agent of peer 1 after its first
  address, number 10, was added and an address was requested for the peer.
\<close>

definition example_handle :: "RIL_Algorithm \<Rightarrow> GAS_RIL_Handle" where
  "example_handle algo =
     \<lparr>parameters = \<lparr>algorithm = algo, gamma = 1 / 2, alpha = 2 / 5, lambda = 1 / 2\<rparr>,
      network_entries =
        [\<lparr>net_type = GNUNET_ATS_NET_WAN, bw_in_available = 100000, bw_in_assigned = 2048,
          bw_out_available = 100000, bw_out_assigned = 2048\<rparr>],
      agents =
        [\<lparr>agent_peer = 1, agent_active = True, step_count = 0,
          agent_W = replicate 10 [0, 0, 0, 0, 0, 0, 0, 0, 0],
          agent_m = 9, agent_n = 10,
          s_old = [0, 100000, 0, 100000, 0, 0, 0, 0, 0], a_old = - 1,
          agent_e = [0, 0, 0, 0, 0, 0, 0, 0, 0],
          address_inuse = Some 10, agent_addresses = [10], bw_in = 1024, bw_out = 1024\<rparr>],
      heap = (\<lambda>a. \<lparr>address_peer = 1, address_active = (a = 10),
                     address_assigned_bw_in = (if a = 10 then 1024 else 0),
                     address_assigned_bw_out = (if a = 10 then 1024 else 0),
                     solver_information = 0\<rparr>),
      bandwidth_changed = [], get_property = (\<lambda>a. [1, 1]), solver_step_count = 0\<rparr>"

text \<open>
  A solver with a WAN network and a LAN network whose quota of 500 is below the
  minimum bandwidth of \<^verbatim>\<open>example_constants\<close>; then the first address of peer 1,
  number 10, is added in the WAN network, and then a second one, number 11, in the
  LAN network.
\<close>

definition low_quota_handle :: GAS_RIL_Handle where
  "low_quota_handle =
     libgnunet_plugin_ats_ril_init
       \<lparr>algorithm = RIL_ALGO_Q, gamma = 1 / 2, alpha = 2 / 5, lambda = 1 / 2\<rparr>
       [(GNUNET_ATS_NET_WAN, 100000, 100000), (GNUNET_ATS_NET_LAN, 500, 500)]
       (\<lambda>a. \<lparr>address_peer = 1, address_active = False, address_assigned_bw_in = 0,
              address_assigned_bw_out = 0, solver_information = 0\<rparr>)
       (\<lambda>a. [1, 1])"

definition low_quota_scenario :: "error + GAS_RIL_Handle" where
  "low_quota_scenario =
     GAS_ril_address_add example_constants low_quota_handle 10 GNUNET_ATS_NET_WAN"

definition low_quota_second_address :: "error + GAS_RIL_Handle" where
  "low_quota_second_address =
     (case low_quota_scenario of
        Inl err \<Rightarrow> Inl err
      | Inr s \<Rightarrow> GAS_ril_address_add example_constants s 11 GNUNET_ATS_NET_LAN)"

text \<open>A suggestion differs from what the agent holds.\<close>

definition suggestion_changes :: "RIL_Peer_Agent \<Rightarrow> address_ptr option \<Rightarrow> u64 \<Rightarrow> u64 \<Rightarrow> bool" where
  "suggestion_changes agent new_address new_bw_in new_bw_out =
     (address_inuse agent \<noteq> new_address
      \<or> (new_address \<noteq> None \<and> (bw_in agent \<noteq> new_bw_in \<or> bw_out agent \<noteq> new_bw_out)))"

section \<open>Facts about the classifier\<close>

lemma mask7_numeral: "(0x7f :: 'a::len word) = mask 7"
  by (simp add: mask_eq_exp_minus_1)

lemma loopback_test_first_octet:
  "(((a::u32) AND 0xff000000) AND 0x7f000000 = 0x7f000000)
     \<longleftrightarrow> (first_octet a AND 0x7f = 0x7f)"
proof -
  have e1: "(0x7f000000 :: u32) = push_bit 24 (mask 7)"
    by (simp add: mask_eq_exp_minus_1)
  have s: "(a AND 0xff000000) AND 0x7f000000 = a AND 0x7f000000"
    by (simp add: and.assoc)
  have hi: "(a AND push_bit 24 (mask 7) = push_bit 24 (mask 7))
              \<longleftrightarrow> (\<forall>n. 24 \<le> n \<and> n < 31 \<longrightarrow> bit a n)"
  proof
    assume h: "a AND push_bit 24 (mask 7) = push_bit 24 (mask 7)"
    show "\<forall>n. 24 \<le> n \<and> n < 31 \<longrightarrow> bit a n"
    proof (intro allI impI)
      fix n :: nat assume n: "24 \<le> n \<and> n < 31"
      have "bit (push_bit 24 (mask 7) :: u32) n" using n by (auto simp: bit_simps)
      then have "bit (a AND push_bit 24 (mask 7)) n" using h by simp
      then show "bit a n" by (simp add: bit_and_iff)
    qed
  next
    assume h: "\<forall>n. 24 \<le> n \<and> n < 31 \<longrightarrow> bit a n"
    show "a AND push_bit 24 (mask 7) = push_bit 24 (mask 7)"
      by (rule bit_eqI) (use h in \<open>auto simp: bit_simps\<close>)
  qed
  have lo: "(drop_bit 24 a AND mask 7 = mask 7) \<longleftrightarrow> (\<forall>n. n < 7 \<longrightarrow> bit a (24 + n))"
  proof
    assume h: "drop_bit 24 a AND mask 7 = mask 7"
    show "\<forall>n. n < 7 \<longrightarrow> bit a (24 + n)"
    proof (intro allI impI)
      fix n :: nat assume n: "n < 7"
      have "bit (mask 7 :: u32) n" using n by (auto simp: bit_simps)
      then have "bit (drop_bit 24 a AND mask 7) n" using h by simp
      then show "bit a (24 + n)" by (simp add: bit_and_iff bit_drop_bit_eq)
    qed
  next
    assume h: "\<forall>n. n < 7 \<longrightarrow> bit a (24 + n)"
    show "drop_bit 24 a AND mask 7 = mask 7"
      by (rule bit_eqI) (use h in \<open>auto simp: bit_simps\<close>)
  qed
  have shift: "(\<forall>n. 24 \<le> n \<and> n < 31 \<longrightarrow> bit a n) \<longleftrightarrow> (\<forall>n. n < 7 \<longrightarrow> bit a (24 + n))"
  proof
    assume h: "\<forall>n. 24 \<le> n \<and> n < 31 \<longrightarrow> bit a n"
    show "\<forall>n. n < 7 \<longrightarrow> bit a (24 + n)" using h by simp
  next
    assume h: "\<forall>n. n < 7 \<longrightarrow> bit a (24 + n)"
    show "\<forall>n. 24 \<le> n \<and> n < 31 \<longrightarrow> bit a n"
    proof (intro allI impI)
      fix n :: nat assume "24 \<le> n \<and> n < 31"
      then have "n - 24 < 7" "24 + (n - 24) = n" by auto
      then show "bit a n" using h by metis
    qed
  qed
  have "(a AND 0x7f000000 = 0x7f000000) \<longleftrightarrow> (drop_bit 24 a AND 0x7f = 0x7f)"
    unfolding e1 mask7_numeral using hi lo shift by blast
  then show ?thesis
    unfolding s first_octet_def .
qed

lemma first_octet_bound: "unat (first_octet a) < 256"
proof -
  have "unat a < 2 ^ 32" using unsigned_less [of a] by simp
  then have "unat a div 2 ^ 24 < 256" by simp
  then show ?thesis
    by (simp add: first_octet_def drop_bit_eq_div unat_div)
qed

lemma mod128_eq_127:
  assumes "(n::nat) < 256"
  shows "(n = 127 \<or> n = 255) = (n mod 128 = 127)"
proof
  assume "n = 127 \<or> n = 255"
  then show "n mod 128 = 127" by auto
next
  assume h: "n mod 128 = 127"
  have "n div 128 < 2" using assms by (simp add: div_less_iff_less_mult)
  then have "n div 128 = 0 \<or> n div 128 = 1" by linarith
  moreover have "n = 128 * (n div 128) + n mod 128" by simp
  ultimately show "n = 127 \<or> n = 255" using h by auto
qed

lemma low7_set_iff:
  assumes "unat (w::u32) < 256"
  shows "(w AND 0x7f = 0x7f) \<longleftrightarrow> (w = 127 \<or> w = 255)"
proof -
  have "w AND 0x7f = take_bit 7 w" by (simp add: mask7_numeral take_bit_eq_mask)
  moreover have "unat (take_bit 7 w) = unat w mod 128"
    by (simp add: take_bit_eq_mod unat_mod)
  moreover have "(take_bit 7 w = 0x7f) \<longleftrightarrow> unat (take_bit 7 w) = 127"
    by (simp add: word_unat_eq_iff)
  ultimately have a: "(w AND 0x7f = 0x7f) \<longleftrightarrow> unat w mod 128 = 127" by simp
  have "(w = 127 \<or> w = 255) \<longleftrightarrow> (unat w = 127 \<or> unat w = 255)"
    by (auto simp: word_unat_eq_iff)
  also have "\<dots> \<longleftrightarrow> unat w mod 128 = 127" by (rule mod128_eq_127 [OF assms])
  finally show ?thesis using a by simp
qed

lemma check_local_networks_decided:
  "type \<noteq> GNUNET_ATS_NET_UNSPECIFIED \<Longrightarrow> check_local_networks nets sa addrlen type = Inr type"
  by (cases nets) simp_all

lemma check_local_networks_in_result:
  "check_local_networks nets (Sockaddr_in a) addrlen GNUNET_ATS_NET_UNSPECIFIED = Inr t
     \<Longrightarrow> t = GNUNET_ATS_NET_UNSPECIFIED \<or> t = GNUNET_ATS_NET_LAN"
proof (induction nets)
  case Nil
  then show ?case by simp
next
  case (Cons cur rest)
  then show ?case
    by (auto simp: check_local_networks_decided
             split: if_splits sockaddr.splits prod.splits)
qed

text \<open>
  What the classifier answers for an IPv4 address that is not loopback, when the
  entries of the interface table with the length of the address are IPv4 entries.
\<close>

lemma check_local_networks_in4:
  assumes "\<forall>cur \<in> set nets. net_length cur = addrlen \<longrightarrow>
             (\<exists>n m. network cur = Sockaddr_in n \<and> netmask cur = Sockaddr_in m)"
  shows "check_local_networks nets (Sockaddr_in a) addrlen GNUNET_ATS_NET_UNSPECIFIED =
           Inr (if \<exists>cur \<in> set nets. net_length cur = addrlen
                      \<and> (\<exists>n m. network cur = Sockaddr_in n \<and> netmask cur = Sockaddr_in m
                                \<and> (a AND m) AND n = n)
                then GNUNET_ATS_NET_LAN else GNUNET_ATS_NET_UNSPECIFIED)"
  using assms
proof (induction nets)
  case Nil
  then show ?case by simp
next
  case (Cons cur rest)
  have IH: "check_local_networks rest (Sockaddr_in a) addrlen GNUNET_ATS_NET_UNSPECIFIED =
           Inr (if \<exists>cur \<in> set rest. net_length cur = addrlen
                      \<and> (\<exists>n m. network cur = Sockaddr_in n \<and> netmask cur = Sockaddr_in m
                                \<and> (a AND m) AND n = n)
                then GNUNET_ATS_NET_LAN else GNUNET_ATS_NET_UNSPECIFIED)"
    using Cons by simp
  show ?case
  proof (cases "net_length cur = addrlen")
    case False
    then show ?thesis using IH by auto
  next
    case True
    then obtain n m where nm: "network cur = Sockaddr_in n" "netmask cur = Sockaddr_in m"
      using Cons.prems by auto
    show ?thesis
    proof (cases "(a AND m) AND n = n")
      case hit: True
      then show ?thesis using True nm by (auto simp: check_local_networks_decided)
    next
      case miss: False
      then show ?thesis using True nm IH by auto
    qed
  qed
qed

lemma GAS_addresses_type_in4:
  assumes "\<forall>cur \<in> set nets. net_length cur = addrlen \<longrightarrow>
             (\<exists>n m. network cur = Sockaddr_in n \<and> netmask cur = Sockaddr_in m)"
    and "first_octet a AND 0x7f \<noteq> 0x7f"
  shows "GAS_addresses_type nets (Sockaddr_in a) addrlen =
           Inr (if \<exists>cur \<in> set nets. net_length cur = addrlen
                      \<and> (\<exists>n m. network cur = Sockaddr_in n \<and> netmask cur = Sockaddr_in m
                                \<and> (a AND m) AND n = n)
                then GNUNET_ATS_NET_LAN else GNUNET_ATS_NET_WAN)"
proof -
  have "(a AND 0xff000000) AND 0x7f000000 \<noteq> 0x7f000000"
    using assms(2) loopback_test_first_octet [of a] by simp
  then show ?thesis
    using check_local_networks_in4 [OF assms(1), of a]
    by (simp add: GAS_addresses_type_def)
qed

text \<open>
  C10. For an IPv4 address the classifier answers LOOPBACK exactly when the seven low
  bits of the first octet are all set, that is when the first octet is 127 or 255,
  whatever the interface table holds.
\<close>

theorem loopback_tests_low_seven_bits:
  "(GAS_addresses_type nets (Sockaddr_in a) addrlen = Inr GNUNET_ATS_NET_LOOPBACK)
     = (first_octet a AND 0x7f = 0x7f)
   \<and> (GAS_addresses_type nets (Sockaddr_in a) addrlen = Inr GNUNET_ATS_NET_LOOPBACK)
     = (first_octet a = 127 \<or> first_octet a = 255)"
proof -
  have main: "(GAS_addresses_type nets (Sockaddr_in a) addrlen = Inr GNUNET_ATS_NET_LOOPBACK)
     = (first_octet a AND 0x7f = 0x7f)"
  proof (cases "(a AND 0xff000000) AND 0x7f000000 = 0x7f000000")
    case True
    then show ?thesis
      using loopback_test_first_octet [of a]
      by (simp add: GAS_addresses_type_def check_local_networks_decided)
  next
    case False
    have "GAS_addresses_type nets (Sockaddr_in a) addrlen \<noteq> Inr GNUNET_ATS_NET_LOOPBACK"
      using False check_local_networks_in_result [of nets a addrlen]
      by (auto simp: GAS_addresses_type_def split: sum.splits)
    then show ?thesis using False loopback_test_first_octet [of a] by simp
  qed
  show ?thesis
    using main low7_set_iff [OF first_octet_bound, of a] by simp
qed

theorem loopback_tests_low_seven_bits_witness:
  "GAS_addresses_type [interface_proc4 0xC0A80001 0xFFFFFF00 16] (Sockaddr_in 0xFF000001) 16
     = Inr GNUNET_ATS_NET_LOOPBACK
   \<and> GAS_addresses_type [interface_proc4 0xC0A80001 0xFFFFFF00 16] (Sockaddr_in 0x7E000001) 16
     \<noteq> Inr GNUNET_ATS_NET_LOOPBACK"
  using loopback_tests_low_seven_bits
          [of "[interface_proc4 0xC0A80001 0xFFFFFF00 16]" "0xFF000001" 16]
        loopback_tests_low_seven_bits
          [of "[interface_proc4 0xC0A80001 0xFFFFFF00 16]" "0x7E000001" 16]
  by (simp add: first_octet_def drop_bit_eq_div)

text \<open>
  C3. With the interface table of one interface 192.168.0.1/24 the classifier
  answers LAN for 192.168.0.5 and WAN for 8.8.8.8, and it also answers LAN for
  192.169.0.5, an address outside that network: the test of the code is
  \<^verbatim>\<open>((addr & mask) & network) == network\<close>, which 192.169.0.5 passes although
  \<^verbatim>\<open>(addr & mask)\<close> differs from the network.
\<close>

theorem ipv4_lan_test_accepts_foreign_address:
  "GAS_addresses_type [interface_proc4 0xC0A80001 0xFFFFFF00 16] (Sockaddr_in 0xC0A80005) 16
     = Inr GNUNET_ATS_NET_LAN
   \<and> GAS_addresses_type [interface_proc4 0xC0A80001 0xFFFFFF00 16] (Sockaddr_in 0x08080808) 16
     = Inr GNUNET_ATS_NET_WAN
   \<and> GAS_addresses_type [interface_proc4 0xC0A80001 0xFFFFFF00 16] (Sockaddr_in 0xC0A90005) 16
     = Inr GNUNET_ATS_NET_LAN
   \<and> first_octet 0xC0A90005 AND 0x7f \<noteq> 0x7f
   \<and> (0xC0A90005 :: u32) AND 0xFFFFFF00 \<noteq> 0xC0A80000
   \<and> network (interface_proc4 0xC0A80001 0xFFFFFF00 16) = Sockaddr_in 0xC0A80000"
  by (simp add: GAS_addresses_type_def interface_proc4_def first_octet_def drop_bit_eq_div)

section \<open>Facts about the address registry\<close>

lemma active_assign_share [simp]: "active (assign_share qi qo c aa) = active aa"
  by (simp add: assign_share_def)

lemma update_bw_it_inactive:
  "\<not> active (addresses st ! i) \<Longrightarrow> update_bw_it i st = Inr st"
  by (simp add: update_bw_it_def)

lemma update_bw_it_active:
  "active (addresses st ! i) \<Longrightarrow> 0 < active_addr_count st \<Longrightarrow>
   update_bw_it i st =
     Inr (st\<lparr>addresses := (addresses st)[i :=
                assign_share (wan_quota_in st) (wan_quota_out st) (active_addr_count st)
                  (addresses st ! i)],
            calls := calls st @ bw_notifications
                (assign_share (wan_quota_in st) (wan_quota_out st) (active_addr_count st)
                  (addresses st ! i))\<rparr>)"
  by (simp add: update_bw_it_def assign_share_def bw_notifications_def Let_def)

lemma recalculated_all: "recalculated st (length (addresses st)) = st"
  by (simp add: recalculated_def)

lemma recalculated_step_inactive:
  assumes "i < length (addresses st)" "\<not> active (addresses st ! i)"
  shows "recalculated st i = recalculated st (Suc i)"
proof -
  have d: "drop i (addresses st) = addresses st ! i # drop (Suc i) (addresses st)"
    using assms(1) by (simp add: Cons_nth_drop_Suc)
  have t: "take (Suc i) (addresses st) = take i (addresses st) @ [addresses st ! i]"
    using assms(1) by (simp add: take_Suc_conv_app_nth)
  show ?thesis
    using assms(2) by (simp add: recalculated_def d t assign_share_def)
qed

lemma recalculated_step_active:
  assumes "i < length (addresses st)" "active (addresses st ! i)"
  shows "recalculated st i =
         recalculated (st\<lparr>addresses := (addresses st)[i :=
                assign_share (wan_quota_in st) (wan_quota_out st) (active_addr_count st)
                  (addresses st ! i)],
            calls := calls st @ bw_notifications
                (assign_share (wan_quota_in st) (wan_quota_out st) (active_addr_count st)
                  (addresses st ! i))\<rparr>) (Suc i)"
proof -
  have d: "drop i (addresses st) = addresses st ! i # drop (Suc i) (addresses st)"
    using assms(1) by (simp add: Cons_nth_drop_Suc)
  show ?thesis
    using assms by (simp add: recalculated_def d take_Suc_conv_app_nth)
qed

lemma visit_update_bw:
  assumes "i + n = length (addresses st)"
    and "0 < active_addr_count st \<or> (\<forall>aa \<in> set (drop i (addresses st)). \<not> active aa)"
  shows "multihashmap_visit (\<lambda>aa. True) update_bw_it n i st = Inr (recalculated st i)"
  using assms
proof (induction n arbitrary: i st)
  case 0
  then show ?case by (simp add: recalculated_all)
next
  case (Suc n)
  have i: "i < length (addresses st)" using Suc.prems(1) by simp
  have d: "drop i (addresses st) = addresses st ! i # drop (Suc i) (addresses st)"
    using i by (simp add: Cons_nth_drop_Suc)
  show ?case
  proof (cases "active (addresses st ! i)")
    case False
    have "multihashmap_visit (\<lambda>aa. True) update_bw_it n (Suc i) st = Inr (recalculated st (Suc i))"
      using Suc.prems d by (intro Suc.IH) auto
    then show ?thesis
      using False i by (simp add: update_bw_it_inactive recalculated_step_inactive)
  next
    case True
    then have c: "0 < active_addr_count st" using Suc.prems(2) d by auto
    let ?st' = "st\<lparr>addresses := (addresses st)[i :=
                assign_share (wan_quota_in st) (wan_quota_out st) (active_addr_count st)
                  (addresses st ! i)],
            calls := calls st @ bw_notifications
                (assign_share (wan_quota_in st) (wan_quota_out st) (active_addr_count st)
                  (addresses st ! i))\<rparr>"
    have "multihashmap_visit (\<lambda>aa. True) update_bw_it n (Suc i) ?st' = Inr (recalculated ?st' (Suc i))"
      using Suc.prems(1) c by (intro Suc.IH) auto
    then show ?thesis
      using True c i
      by (simp add: update_bw_it_active recalculated_step_active [OF i True])
  qed
qed

lemma recalculate_assigned_bw_eq:
  assumes "0 < active_addr_count st \<or> (\<forall>aa \<in> set (addresses st). \<not> active aa)"
  shows "recalculate_assigned_bw st =
           Inr (recalculated (st\<lparr>bandwidth_recalculations := bandwidth_recalculations st + 1\<rparr>) 0)"
  using assms
  by (simp add: recalculate_assigned_bw_def multihashmap_iterate_def visit_update_bw)

lemmas registry_defs =
  and_then_def GAS_addresses_init_def GAS_addresses_update_def GAS_addresses_request_address_def
  GAS_addresses_destroy_def find_address_def find_best_def find_address_it_def
  compare_address_it_def memcmp_eq_def zero_address_def multihashmap_put_def
  multihashmap_remove_def multihashmap_get_multiple_def multihashmap_iterate_def
  recalculate_assigned_bw_def update_bw_it_def destroy_by_session_id_def destroy_address_def
  update_property_def Let_def

lemma unat_share:
  "unat (ucast ((q::u64) div ucast (c::u32)) :: u32) = (unat q div unat c) mod 2 ^ 32"
proof -
  have "unat c < 2 ^ 32" using unsigned_less [of c] by simp
  then have "unat (ucast c :: u64) = unat c"
    by (simp add: unsigned_ucast_eq take_bit_eq_mod)
  then show ?thesis
    by (simp add: unsigned_ucast_eq take_bit_eq_mod unat_div)
qed

lemma consistent_no_abort:
  assumes "active_count_consistent st"
  shows "0 < active_addr_count st \<or> (\<forall>aa \<in> set (addresses st). \<not> active aa)"
proof (cases "\<forall>aa \<in> set (addresses st). \<not> active aa")
  case True
  then show ?thesis by simp
next
  case False
  then have "filter active (addresses st) \<noteq> []" by (auto simp: filter_empty_conv)
  then have "0 < unat (active_addr_count st)"
    using assms by (simp add: active_count_consistent_def)
  then show ?thesis by (simp add: word_less_nat_alt)
qed

lemma recalculated_nth:
  "i < length (addresses st) \<Longrightarrow>
   addresses (recalculated st 0) ! i =
     assign_share (wan_quota_in st) (wan_quota_out st) (active_addr_count st) (addresses st ! i)"
  by (simp add: recalculated_def)

lemma recalculation_share:
  assumes "active_count_consistent st"
  shows "\<exists>st'. recalculate_assigned_bw st = Inr st'
           \<and> length (addresses st') = length (addresses st)
           \<and> (\<forall>i < length (addresses st).
                 active (addresses st' ! i) = active (addresses st ! i)
                 \<and> (active (addresses st ! i) \<longrightarrow>
                      unat (assigned_bw_in (addresses st' ! i))
                        = (unat (wan_quota_in st) div length (filter active (addresses st))) mod 2 ^ 32
                    \<and> unat (assigned_bw_out (addresses st' ! i))
                        = (unat (wan_quota_out st) div length (filter active (addresses st))) mod 2 ^ 32))"
proof -
  let ?st1 = "st\<lparr>bandwidth_recalculations := bandwidth_recalculations st + 1\<rparr>"
  have r: "recalculate_assigned_bw st = Inr (recalculated ?st1 0)"
    by (rule recalculate_assigned_bw_eq [OF consistent_no_abort [OF assms]])
  have len: "length (addresses (recalculated ?st1 0)) = length (addresses st)"
    by (simp add: recalculated_def)
  have k: "unat (active_addr_count st) = length (filter active (addresses st))"
    using assms by (simp add: active_count_consistent_def)
  have each: "active (addresses (recalculated ?st1 0) ! i) = active (addresses st ! i)
       \<and> (active (addresses st ! i) \<longrightarrow>
            unat (assigned_bw_in (addresses (recalculated ?st1 0) ! i))
              = (unat (wan_quota_in st) div length (filter active (addresses st))) mod 2 ^ 32
          \<and> unat (assigned_bw_out (addresses (recalculated ?st1 0) ! i))
              = (unat (wan_quota_out st) div length (filter active (addresses st))) mod 2 ^ 32)"
    if "i < length (addresses st)" for i
  proof -
    have "addresses (recalculated ?st1 0) ! i =
      assign_share (wan_quota_in st) (wan_quota_out st) (active_addr_count st) (addresses st ! i)"
      using that recalculated_nth [of i ?st1] by simp
    then show ?thesis
      by (simp add: assign_share_def unat_share k)
  qed
  show ?thesis using r len each by blast
qed

lemma memcmp_eq_same_length:
  "length a = length b \<Longrightarrow> memcmp_eq a b (length a) = (a = b)"
  by (simp add: memcmp_eq_def)

lemma compare_address_it_iff:
  "(peer aa = p \<and> \<not> compare_address_it search aa)
     = matches_update p (plugin search) (addr search) (session_id search) aa"
  by (auto simp: compare_address_it_def matches_update_def memcmp_eq_def)

lemma find_address_from_None_iff:
  "(find_address_from p search xs i = None)
     = (\<forall>aa \<in> set xs. \<not> matches_update p (plugin search) (addr search) (session_id search) aa)"
  by (induction xs arbitrary: i) (auto simp: compare_address_it_iff [symmetric])

lemma find_address_from_Some:
  "find_address_from p search xs i = Some j \<Longrightarrow>
     i \<le> j \<and> j - i < length xs
     \<and> matches_update p (plugin search) (addr search) (session_id search) (xs ! (j - i))"
proof (induction xs arbitrary: i)
  case Nil
  then show ?case by simp
next
  case (Cons x rest)
  show ?case
  proof (cases "peer x = p \<and> \<not> compare_address_it search x")
    case True
    then show ?thesis using Cons.prems compare_address_it_iff [of x p search] by auto
  next
    case False
    then have r: "find_address_from p search rest (Suc i) = Some j" using Cons.prems by auto
    from Cons.IH [OF r] have "Suc i \<le> j" "j - Suc i < length rest"
      "matches_update p (plugin search) (addr search) (session_id search) (rest ! (j - Suc i))"
      by auto
    moreover from \<open>Suc i \<le> j\<close> have "j - i = Suc (j - Suc i)" by simp
    ultimately show ?thesis by simp
  qed
qed

lemma find_address_from_update:
  "find_address_from p search xs i = Some j \<Longrightarrow>
   matches_update p (plugin search) (addr search) (session_id search) b \<Longrightarrow>
   find_address_from p search (xs[j - i := b]) i = Some j"
proof (induction xs arbitrary: i)
  case Nil
  then show ?case by simp
next
  case (Cons x rest)
  show ?case
  proof (cases "peer x = p \<and> \<not> compare_address_it search x")
    case True
    then have "j = i" using Cons.prems(1) by auto
    then show ?thesis using Cons.prems(2) compare_address_it_iff [of b p search] by simp
  next
    case False
    then have r: "find_address_from p search rest (Suc i) = Some j" using Cons.prems by auto
    have "Suc i \<le> j" using find_address_from_Some [OF r] by simp
    then have e: "j - i = Suc (j - Suc i)" by simp
    show ?thesis using False Cons.IH [OF r Cons.prems(2)] by (auto simp: e)
  qed
qed

lemma find_address_from_append:
  "find_address_from p search xs i = None \<Longrightarrow>
   matches_update p (plugin search) (addr search) (session_id search) a \<Longrightarrow>
   find_address_from p search (xs @ [a]) i = Some (i + length xs)"
proof (induction xs arbitrary: i)
  case Nil
  then show ?case using compare_address_it_iff [of a p search] by simp
next
  case (Cons x rest)
  then show ?case by (auto split: if_splits)
qed

text \<open>Properties overwrite each other or commute.\<close>

lemma update_property_absorb_or_commute:
  "(\<forall>b. update_property y (update_property x b) = update_property y b)
   \<or> (\<forall>b. update_property y (update_property x b) = update_property x (update_property y b))"
  by (cases "ats_type x"; cases "ats_type y"; simp add: update_property_def)

lemma update_property_fold_absorb:
  "update_property x (fold update_property ys (update_property x b))
     = update_property x (fold update_property ys b)"
proof (induction ys arbitrary: b)
  case Nil
  have "update_property x (update_property x b) = update_property x b"
    by (cases "ats_type x") (simp_all add: update_property_def)
  then show ?case by simp
next
  case (Cons y ys)
  from update_property_absorb_or_commute [of y x]
  show ?case
  proof
    assume "\<forall>b. update_property y (update_property x b) = update_property y b"
    then show ?thesis by simp
  next
    assume "\<forall>b. update_property y (update_property x b) = update_property x (update_property y b)"
    then show ?thesis using Cons.IH [of "update_property y b"] by simp
  qed
qed

lemma fold_update_property_idem:
  "fold update_property atsi (fold update_property atsi b) = fold update_property atsi b"
proof (induction atsi arbitrary: b rule: rev_induct)
  case Nil
  then show ?case by simp
next
  case (snoc x ys)
  then show ?case by (simp add: update_property_fold_absorb)
qed

lemma update_property_keeps:
  "peer (update_property x b) = peer b" "addr (update_property x b) = addr b"
  "plugin (update_property x b) = plugin b" "session_id (update_property x b) = session_id b"
  "ats (update_property x b) = ats b" "active (update_property x b) = active b"
  by (cases "ats_type x"; simp add: update_property_def)+

lemma fold_update_property_keeps:
  "peer (fold update_property xs b) = peer b" "addr (fold update_property xs b) = addr b"
  "plugin (fold update_property xs b) = plugin b"
  "session_id (fold update_property xs b) = session_id b"
  "ats (fold update_property xs b) = ats b" "active (fold update_property xs b) = active b"
  by (induction xs arbitrary: b) (simp_all add: update_property_keeps)

lemma update_query_fields [simp]:
  "peer (update_query p pl ad se atsi) = p" "plugin (update_query p pl ad se atsi) = pl"
  "addr (update_query p pl ad se atsi) = ad" "session_id (update_query p pl ad se atsi) = se"
  "ats (update_query p pl ad se atsi) = atsi" "active (update_query p pl ad se atsi) = False"
  by (simp_all add: update_query_def zero_address_def)

lemma GAS_addresses_update_new:
  assumes "find_address p (update_query p pl ad se atsi) st = None"
  shows "GAS_addresses_update p pl ad se atsi st =
           Inr (st\<lparr>addresses := addresses st @
                     [fold update_property atsi (update_query p pl ad se atsi)]\<rparr>)"
  using assms
  by (simp add: GAS_addresses_update_def update_query_def multihashmap_put_def)

lemma GAS_addresses_update_existing:
  assumes "find_address p (update_query p pl ad se atsi) st = Some old"
  shows "GAS_addresses_update p pl ad se atsi st =
           Inr (st\<lparr>addresses := (addresses st)[old :=
                  fold update_property atsi ((addresses st ! old)\<lparr>session_id := se, ats := atsi\<rparr>)]\<rparr>)"
proof -
  have "old < length (addresses st)"
    using find_address_from_Some [of p _ "addresses st" 0 old] assms
    by (simp add: find_address_def)
  then show ?thesis
    using assms by (simp add: GAS_addresses_update_def update_query_def)
qed

lemma session_ats_already:
  "session_id a = se \<Longrightarrow> ats a = atsi \<Longrightarrow> a\<lparr>session_id := se, ats := atsi\<rparr> = a"
  by auto

lemma fold_skip:
  "\<forall>i \<in> set js. \<not> P i \<Longrightarrow> fold (\<lambda>i ap. if P i then f i ap else ap) js acc = acc"
  by (induction js arbitrary: acc) auto

lemma find_best_only_last:
  assumes "\<forall>aa \<in> set xs. peer aa \<noteq> p" "peer a = p"
  shows "find_best p (st\<lparr>addresses := xs @ [a]\<rparr>) = Some (length xs)"
proof -
  have skip: "\<forall>i \<in> set [0..<length xs]. \<not> peer ((xs @ [a]) ! i) = p"
    using assms(1) by (auto simp: nth_append)
  have "fold (\<lambda>i ap. if peer ((xs @ [a]) ! i) = p
                        then find_address_it (xs @ [a]) i ap else ap) [0..<length xs] None = None"
    by (rule fold_skip [OF skip])
  moreover have e: "addresses (st\<lparr>addresses := xs @ [a]\<rparr>) = xs @ [a]" by simp
  ultimately show ?thesis
    unfolding find_best_def e using assms(2) by (simp add: find_address_it_def)
qed

lemma GAS_addresses_update_idem:
  assumes "GAS_addresses_update p pl ad se atsi st = Inr st1"
  shows "GAS_addresses_update p pl ad se atsi st1 = Inr st1"
proof (cases "find_address p (update_query p pl ad se atsi) st")
  case None
  let ?a1 = "fold update_property atsi (update_query p pl ad se atsi)"
  have st1: "st1 = st\<lparr>addresses := addresses st @ [?a1]\<rparr>"
    using assms GAS_addresses_update_new [OF None] by simp
  have m: "matches_update p pl ad se ?a1"
    by (simp add: matches_update_def fold_update_property_keeps)
  have f: "find_address p (update_query p pl ad se atsi) st1 = Some (length (addresses st))"
    using None find_address_from_append [of p "update_query p pl ad se atsi" "addresses st" 0 ?a1] m
    by (simp add: find_address_def st1)
  have same: "?a1\<lparr>session_id := se, ats := atsi\<rparr> = ?a1"
    by (rule session_ats_already) (simp_all add: fold_update_property_keeps)
  show ?thesis
    unfolding GAS_addresses_update_existing [OF f]
    by (simp add: st1 same fold_update_property_idem)
next
  case (Some old)
  let ?b1 = "fold update_property atsi ((addresses st ! old)\<lparr>session_id := se, ats := atsi\<rparr>)"
  have st1: "st1 = st\<lparr>addresses := (addresses st)[old := ?b1]\<rparr>"
    using assms GAS_addresses_update_existing [OF Some] by simp
  have old: "old < length (addresses st)"
    and mb: "matches_update p pl ad se (addresses st ! old)"
    using find_address_from_Some [of p "update_query p pl ad se atsi" "addresses st" 0 old] Some
    by (simp_all add: find_address_def)
  have m: "matches_update p pl ad se ?b1"
    using mb by (auto simp: matches_update_def fold_update_property_keeps)
  have f: "find_address p (update_query p pl ad se atsi) st1 = Some old"
    using Some find_address_from_update [of p "update_query p pl ad se atsi" "addresses st" 0 old ?b1] m
    by (simp add: find_address_def st1)
  have same: "?b1\<lparr>session_id := se, ats := atsi\<rparr> = ?b1"
    by (rule session_ats_already) (simp_all add: fold_update_property_keeps)
  show ?thesis
    unfolding GAS_addresses_update_existing [OF f]
    using old by (simp add: st1 same fold_update_property_idem)
qed

text \<open>
  C8. \<^verbatim>\<open>GAS_addresses_update\<close> never aborts. It adds an address exactly when no
  address of the peer matches by plugin and raw address or by nonzero session.
  A second call with the same arguments leaves the registry as the first call left
  it. When the peer had no address before, the registry then holds exactly one
  address of the peer, and the best address of the peer is that one, after the first
  call and after the second.
\<close>

theorem update_total_and_idempotent:
  "\<exists>st1. GAS_addresses_update p pl ad se atsi st = Inr st1
     \<and> length (addresses st1) =
         (if \<exists>aa \<in> set (addresses st). matches_update p pl ad se aa
          then length (addresses st) else length (addresses st) + 1)
     \<and> GAS_addresses_update p pl ad se atsi st1 = Inr st1
     \<and> ((\<forall>aa \<in> set (addresses st). peer aa \<noteq> p) \<longrightarrow>
           filter (\<lambda>aa. peer aa = p) (addresses st1)
             = [fold update_property atsi (update_query p pl ad se atsi)]
         \<and> find_best p st1 = Some (length (addresses st))
         \<and> addresses st1 ! length (addresses st)
             = fold update_property atsi (update_query p pl ad se atsi))"
proof (cases "find_address p (update_query p pl ad se atsi) st")
  case None
  let ?a1 = "fold update_property atsi (update_query p pl ad se atsi)"
  let ?st1 = "st\<lparr>addresses := addresses st @ [?a1]\<rparr>"
  have u: "GAS_addresses_update p pl ad se atsi st = Inr ?st1"
    by (rule GAS_addresses_update_new [OF None])
  have nomatch: "\<not> (\<exists>aa \<in> set (addresses st). matches_update p pl ad se aa)"
    using None find_address_from_None_iff [of p "update_query p pl ad se atsi" "addresses st" 0]
    by (simp add: find_address_def)
  have pa: "peer ?a1 = p" by (simp add: fold_update_property_keeps)
  have fresh: "filter (\<lambda>aa. peer aa = p) (addresses ?st1) = [?a1]
         \<and> find_best p ?st1 = Some (length (addresses st))
         \<and> addresses ?st1 ! length (addresses st) = ?a1"
    if h: "\<forall>aa \<in> set (addresses st). peer aa \<noteq> p"
  proof -
    have "filter (\<lambda>aa. peer aa = p) (addresses st) = []"
      using h by (simp add: filter_empty_conv)
    then show ?thesis
      using find_best_only_last [OF h pa, of st] pa by simp
  qed
  show ?thesis
    using u GAS_addresses_update_idem [OF u] nomatch fresh by auto
next
  case (Some old)
  let ?b1 = "fold update_property atsi ((addresses st ! old)\<lparr>session_id := se, ats := atsi\<rparr>)"
  let ?st1 = "st\<lparr>addresses := (addresses st)[old := ?b1]\<rparr>"
  have u: "GAS_addresses_update p pl ad se atsi st = Inr ?st1"
    by (rule GAS_addresses_update_existing [OF Some])
  have old: "old < length (addresses st)"
    and mb: "matches_update p pl ad se (addresses st ! old)"
    using find_address_from_Some [of p "update_query p pl ad se atsi" "addresses st" 0 old] Some
    by (simp_all add: find_address_def)
  then have match: "\<exists>aa \<in> set (addresses st). matches_update p pl ad se aa"
    using nth_mem by blast
  have notfresh: "\<not> (\<forall>aa \<in> set (addresses st). peer aa \<noteq> p)"
    using match by (auto simp: matches_update_def)
  show ?thesis
    using u GAS_addresses_update_idem [OF u] match notfresh by auto
qed

theorem update_total_and_idempotent_witness:
  "addresses (GAS_addresses_init 1000 1000) = []
   \<and> (\<exists>st1. GAS_addresses_update 1 ''tcp'' [10, 0, 0, 1] 0 [] (GAS_addresses_init 1000 1000) = Inr st1
        \<and> GAS_addresses_update 1 ''tcp'' [10, 0, 0, 1] 0 [] st1 = Inr st1
        \<and> addresses st1 = [zero_address 1 ''tcp'' [10, 0, 0, 1] 0]
        \<and> find_best 1 st1 = Some 0)"
proof -
  from update_total_and_idempotent
         [of 1 "''tcp''" "[10, 0, 0, 1]" 0 "[]" "GAS_addresses_init 1000 1000"]
  obtain st1 where
    a: "GAS_addresses_update 1 ''tcp'' [10, 0, 0, 1] 0 [] (GAS_addresses_init 1000 1000) = Inr st1"
    and b: "GAS_addresses_update 1 ''tcp'' [10, 0, 0, 1] 0 [] st1 = Inr st1"
    and c: "find_best 1 st1 = Some 0"
    by (auto simp: GAS_addresses_init_def)
  have "addresses st1 = [zero_address 1 ''tcp'' [10, 0, 0, 1] 0]"
    using a by (auto simp: registry_defs)
  then show ?thesis using a b c by (simp add: GAS_addresses_init_def)
qed

lemma without_bw_assign_share [simp]:
  "without_bw (assign_share qi qo c aa) = without_bw aa"
  by (simp add: without_bw_def assign_share_def)

lemma length_filter_update:
  assumes "i < length xs"
  shows "length (filter P (xs[i := b])) + (if P (xs ! i) then 1 else 0)
           = length (filter P xs) + (if P b then 1 else 0)"
proof -
  have "filter P xs = filter P (take i xs @ xs ! i # drop (Suc i) xs)"
    using assms by (simp add: id_take_nth_drop [symmetric])
  then have "length (filter P xs)
      = length (filter P (take i xs)) + (if P (xs ! i) then 1 else 0)
          + length (filter P (drop (Suc i) xs))"
    by simp
  moreover have "length (filter P (xs[i := b]))
      = length (filter P (take i xs)) + (if P b then 1 else 0)
          + length (filter P (drop (Suc i) xs))"
    using assms by (simp add: upd_conv_take_nth_drop)
  ultimately show ?thesis by simp
qed

lemma length_filter_remove:
  assumes "i < length xs"
  shows "length (filter P (take i xs @ drop (Suc i) xs)) + (if P (xs ! i) then 1 else 0)
           = length (filter P xs)"
proof -
  have "filter P xs = filter P (take i xs @ xs ! i # drop (Suc i) xs)"
    using assms by (simp add: id_take_nth_drop [symmetric])
  then show ?thesis by simp
qed

lemma recalculate_consistent:
  assumes "active_count_consistent st"
  shows "\<exists>st'. recalculate_assigned_bw st = Inr st'
           \<and> map without_bw (addresses st') = map without_bw (addresses st)
           \<and> map active (addresses st') = map active (addresses st)
           \<and> active_addr_count st' = active_addr_count st
           \<and> bandwidth_recalculations st' = bandwidth_recalculations st + 1
           \<and> wan_quota_in st' = wan_quota_in st \<and> wan_quota_out st' = wan_quota_out st
           \<and> active_count_consistent st'"
proof -
  let ?st1 = "st\<lparr>bandwidth_recalculations := bandwidth_recalculations st + 1\<rparr>"
  have r: "recalculate_assigned_bw st = Inr (recalculated ?st1 0)"
    by (rule recalculate_assigned_bw_eq [OF consistent_no_abort [OF assms]])
  have f: "filter active (map (assign_share qi qo c) xs) = map (assign_share qi qo c) (filter active xs)"
    for qi qo c xs
    by (induction xs) simp_all
  have "active_count_consistent (recalculated ?st1 0)"
    using assms by (simp add: active_count_consistent_def recalculated_def f)
  then show ?thesis
    using r by (simp add: recalculated_def)
qed

lemma destroy_address_inactive:
  assumes "i < length (addresses st)" "\<not> active (addresses st ! i)"
  shows "destroy_address i st =
           Inr (False, st\<lparr>addresses := take i (addresses st) @ drop (Suc i) (addresses st)\<rparr>)"
  using assms by (simp add: destroy_address_def multihashmap_remove_def)

lemma destroy_address_active:
  assumes "i < length (addresses st)" "active (addresses st ! i)"
  shows "destroy_address i st =
           Inr (True, st\<lparr>addresses := take i (addresses st) @ drop (Suc i) (addresses st),
                          active_addr_count := active_addr_count st - 1\<rparr>)"
  using assms by (simp add: destroy_address_def multihashmap_remove_def)

lemma consistent_deactivate:
  assumes c: "active_count_consistent st" and i: "i < length (addresses st)"
    and a: "active (addresses st ! i)" and b: "\<not> active b"
  shows "active_count_consistent
           (st\<lparr>addresses := (addresses st)[i := b],
               active_addr_count := active_addr_count st - 1\<rparr>)"
proof -
  have n: "length (filter active ((addresses st)[i := b])) + 1 = length (filter active (addresses st))"
    using length_filter_update [OF i, of active b] a b by simp
  then have "unat (active_addr_count st) \<noteq> 0"
    using c unfolding active_count_consistent_def by linarith
  then have "active_addr_count st \<noteq> 0" by (simp add: unat_eq_zero)
  then have "unat (active_addr_count st - 1) = unat (active_addr_count st) - 1"
    by (rule unat_minus_one)
  then show ?thesis
    using c n by (simp add: active_count_consistent_def)
qed

lemma consistent_remove_inactive:
  assumes c: "active_count_consistent st" and i: "i < length (addresses st)"
    and a: "\<not> active (addresses st ! i)"
  shows "active_count_consistent
           (st\<lparr>addresses := take i (addresses st) @ drop (Suc i) (addresses st)\<rparr>)"
  using c length_filter_remove [OF i, of active] a
  by (simp add: active_count_consistent_def)

lemma consistent_set_inactive_field:
  assumes c: "active_count_consistent st" and i: "i < length (addresses st)"
    and a: "active b = active (addresses st ! i)"
  shows "active_count_consistent (st\<lparr>addresses := (addresses st)[i := b]\<rparr>)"
  using c length_filter_update [OF i, of active b] a
  by (simp add: active_count_consistent_def split: if_splits)

lemma destroy_by_session_id_unfold:
  "destroy_by_session_id info i st =
     (let aa = addresses st ! i in
      if peer aa \<noteq> peer info then Inl Assertion_failed
      else if names_address info aa
      then (case destroy_address i st of
              Inl err \<Rightarrow> Inl err
            | Inr (True, st') \<Rightarrow> recalculate_assigned_bw st'
            | Inr (False, st') \<Rightarrow> Inr st')
      else if session_id aa \<noteq> session_id info then Inr st
      else
        (let st1 = st\<lparr>addresses := (addresses st)[i := aa\<lparr>session_id := 0\<rparr>]\<rparr>;
             r = (if active aa
                  then recalculate_assigned_bw
                         (st1\<lparr>addresses := (addresses st1)[i := (addresses st1 ! i)\<lparr>active := False\<rparr>],
                              active_addr_count := active_addr_count st1 - 1\<rparr>)
                  else Inr st1)
         in case r of
              Inl err \<Rightarrow> Inl err
            | Inr st2 \<Rightarrow>
                if addr_len aa = 0
                then (case destroy_address i st2 of
                        Inl err \<Rightarrow> Inl err
                      | Inr (ret, st3) \<Rightarrow> Inr st3)
                else Inr st2))"
  unfolding destroy_by_session_id_def names_address_def ..

lemma destroy_by_session_id_downgrade:
  assumes i: "i < length (addresses st)"
    and p: "peer (addresses st ! i) = peer info"
    and nb: "\<not> names_address info (addresses st ! i)"
    and s: "session_id (addresses st ! i) = session_id info"
    and c: "active_count_consistent st"
  shows "\<exists>st'. destroy_by_session_id info i st = Inr st'
     \<and> map without_bw (addresses st') =
         map without_bw
           (if addr (addresses st ! i) = []
            then take i (addresses st) @ drop (Suc i) (addresses st)
            else (addresses st)[i := (addresses st ! i)\<lparr>session_id := 0, active := False\<rparr>])
     \<and> active_addr_count st' =
         (if active (addresses st ! i) then active_addr_count st - 1 else active_addr_count st)
     \<and> bandwidth_recalculations st' =
         (if active (addresses st ! i) then bandwidth_recalculations st + 1
          else bandwidth_recalculations st)
     \<and> wan_quota_in st' = wan_quota_in st \<and> wan_quota_out st' = wan_quota_out st
     \<and> active_count_consistent st'"
proof (cases "active (addresses st ! i)")
  case False
  let ?aa = "addresses st ! i"
  let ?st1 = "st\<lparr>addresses := (addresses st)[i := ?aa\<lparr>session_id := 0\<rparr>]\<rparr>"
  have same: "?aa\<lparr>session_id := 0, active := False\<rparr> = ?aa\<lparr>session_id := 0\<rparr>"
    using False by simp
  have c1: "active_count_consistent ?st1"
    by (rule consistent_set_inactive_field [OF c i]) simp
  show ?thesis
  proof (cases "addr ?aa = []")
    case True
    have d: "destroy_address i ?st1 =
        Inr (False, ?st1\<lparr>addresses := take i (addresses ?st1) @ drop (Suc i) (addresses ?st1)\<rparr>)"
      using i False by (intro destroy_address_inactive) simp_all
    have c2: "active_count_consistent
                (?st1\<lparr>addresses := take i (addresses ?st1) @ drop (Suc i) (addresses ?st1)\<rparr>)"
      using i False by (intro consistent_remove_inactive [OF c1]) simp_all
    show ?thesis
      using i p nb s False True d c2
      by (simp add: destroy_by_session_id_unfold Let_def same)
  next
    case nonempty: False
    show ?thesis
      using i p nb s False nonempty c1
      by (simp add: destroy_by_session_id_unfold Let_def same)
  qed
next
  case True
  let ?aa = "addresses st ! i"
  let ?st1 = "st\<lparr>addresses := (addresses st)[i := ?aa\<lparr>session_id := 0, active := False\<rparr>],
                  active_addr_count := active_addr_count st - 1\<rparr>"
  have c1: "active_count_consistent ?st1"
    by (rule consistent_deactivate [OF c i True]) simp
  from recalculate_consistent [OF c1] obtain st2 where
    r: "recalculate_assigned_bw ?st1 = Inr st2"
    and w: "map without_bw (addresses st2) = map without_bw (addresses ?st1)"
    and a: "map active (addresses st2) = map active (addresses ?st1)"
    and n: "active_addr_count st2 = active_addr_count ?st1"
    and b: "bandwidth_recalculations st2 = bandwidth_recalculations ?st1 + 1"
    and q: "wan_quota_in st2 = wan_quota_in ?st1" "wan_quota_out st2 = wan_quota_out ?st1"
    and c2: "active_count_consistent st2"
    by blast
  have len2: "length (addresses st2) = length (addresses st)"
    using w by (metis length_map length_list_update ats_state.select_convs(1)
                  ats_state.surjective ats_state.update_convs(1) ats_state.update_convs(4))
  have i2: "i < length (addresses st2)" using i len2 by simp
  have "map active (addresses st2) ! i = map active (addresses ?st1) ! i" using a by simp
  then have na: "\<not> active (addresses st2 ! i)" using i i2 by simp
  have step: "destroy_by_session_id info i st =
     (if addr ?aa = []
      then (case destroy_address i st2 of Inl err \<Rightarrow> Inl err | Inr (ret, st3) \<Rightarrow> Inr st3)
      else Inr st2)"
    using i p nb s True r by (simp add: destroy_by_session_id_unfold Let_def)
  show ?thesis
  proof (cases "addr ?aa = []")
    case empty: True
    have d: "destroy_address i st2 =
        Inr (False, st2\<lparr>addresses := take i (addresses st2) @ drop (Suc i) (addresses st2)\<rparr>)"
      by (rule destroy_address_inactive [OF i2 na])
    have c3: "active_count_consistent
                (st2\<lparr>addresses := take i (addresses st2) @ drop (Suc i) (addresses st2)\<rparr>)"
      by (rule consistent_remove_inactive [OF c2 i2 na])
    have "map without_bw (take i (addresses st2) @ drop (Suc i) (addresses st2))
            = take i (map without_bw (addresses st2)) @ drop (Suc i) (map without_bw (addresses st2))"
      by (simp add: take_map drop_map)
    also have "\<dots> = map without_bw (take i (addresses st) @ drop (Suc i) (addresses st))"
      using w by (simp add: take_map drop_map)
    finally have w3: "map without_bw (take i (addresses st2) @ drop (Suc i) (addresses st2))
            = map without_bw (take i (addresses st) @ drop (Suc i) (addresses st))" .
    show ?thesis
      using step empty d c3 w3 n b q True by simp
  next
    case nonempty: False
    show ?thesis
      using step nonempty w n b q c2 True by simp
  qed
qed

lemma without_bw_fields [simp]:
  "peer (without_bw aa) = peer aa" "session_id (without_bw aa) = session_id aa"
  "addr (without_bw aa) = addr aa" "active (without_bw aa) = active aa"
  "plugin (without_bw aa) = plugin aa"
  by (simp_all add: without_bw_def)

lemma downgrade_without_bw:
  "downgrade p s (without_bw aa) = map_option without_bw (downgrade p s aa)"
  by (simp add: downgrade_def) (simp add: without_bw_def)

lemma map_filter_downgrade_without_bw:
  "map without_bw (List.map_filter (downgrade p s) ys)
     = List.map_filter (downgrade p s) (map without_bw ys)"
  by (induction ys) (auto simp: downgrade_without_bw split: option.splits)

lemma session_active_without_bw [simp]:
  "session_active p s (without_bw aa) = session_active p s aa"
  by (simp add: session_active_def)

lemma filter_session_active_without_bw:
  "length (filter (session_active p s) (map without_bw ys))
     = length (filter (session_active p s) ys)"
  by (induction ys) simp_all

lemma visit_destroy_by_session:
  assumes "i + n = length (addresses st)" "active_count_consistent st"
    "session_id info \<noteq> 0" "peer info = p"
  shows "\<exists>st'. multihashmap_visit (\<lambda>aa. peer aa = p) (destroy_by_session_id info) n i st = Inr st'
     \<and> map without_bw (addresses st') =
         take i (map without_bw (addresses st))
           @ List.map_filter (downgrade p (session_id info)) (drop i (map without_bw (addresses st)))
     \<and> bandwidth_recalculations st' =
         bandwidth_recalculations st
           + length (filter (session_active p (session_id info)) (drop i (map without_bw (addresses st))))
     \<and> wan_quota_in st' = wan_quota_in st \<and> wan_quota_out st' = wan_quota_out st
     \<and> active_count_consistent st'"
  using assms(1,2)
proof (induction n arbitrary: i st)
  case 0
  then show ?case by simp
next
  case (Suc n)
  let ?s = "session_id info"
  let ?xs = "addresses st"
  let ?W = "map without_bw ?xs"
  have i: "i < length ?xs" using Suc.prems(1) by simp
  have d: "drop i ?W = without_bw (?xs ! i) # drop (Suc i) ?W"
    using i by (simp add: Cons_nth_drop_Suc [symmetric])
  have t: "take (Suc i) ?W = take i ?W @ [without_bw (?xs ! i)]"
    using i by (simp add: take_Suc_conv_app_nth)
  show ?case
  proof (cases "peer (?xs ! i) = p \<and> session_id (?xs ! i) = ?s")
    case False
    have keep: "downgrade p ?s (without_bw (?xs ! i)) = Some (without_bw (?xs ! i))"
      using False by (auto simp: downgrade_def)
    have nact: "\<not> session_active p ?s (?xs ! i)"
      using False by (auto simp: session_active_def)
    have stepeq: "multihashmap_visit (\<lambda>aa. peer aa = p) (destroy_by_session_id info) (Suc n) i st
            = multihashmap_visit (\<lambda>aa. peer aa = p) (destroy_by_session_id info) n (Suc i) st"
      using False assms(3,4) by (auto simp: destroy_by_session_id_def Let_def)
    from Suc.IH [of "Suc i" st] Suc.prems obtain st' where
      r: "multihashmap_visit (\<lambda>aa. peer aa = p) (destroy_by_session_id info) n (Suc i) st = Inr st'"
      and w: "map without_bw (addresses st') =
         take (Suc i) ?W @ List.map_filter (downgrade p ?s) (drop (Suc i) ?W)"
      and b: "bandwidth_recalculations st' = bandwidth_recalculations st
           + length (filter (session_active p ?s) (drop (Suc i) ?W))"
      and q: "wan_quota_in st' = wan_quota_in st" "wan_quota_out st' = wan_quota_out st"
      and c: "active_count_consistent st'"
      by auto
    show ?thesis
      using stepeq r w b q c keep nact by (simp add: d t)
  next
    case True
    then have pi: "peer (?xs ! i) = peer info" and si: "session_id (?xs ! i) = ?s"
      using assms(4) by simp_all
    have nb: "\<not> names_address info (?xs ! i)"
      using assms(3) by (simp add: names_address_def)
    from destroy_by_session_id_downgrade [OF i pi nb si Suc.prems(2)] obtain st2 where
      it: "destroy_by_session_id info i st = Inr st2"
      and w2: "map without_bw (addresses st2) =
         map without_bw
           (if addr (?xs ! i) = []
            then take i ?xs @ drop (Suc i) ?xs
            else ?xs[i := (?xs ! i)\<lparr>session_id := 0, active := False\<rparr>])"
      and b2: "bandwidth_recalculations st2 =
         (if active (?xs ! i) then bandwidth_recalculations st + 1 else bandwidth_recalculations st)"
      and q2: "wan_quota_in st2 = wan_quota_in st" "wan_quota_out st2 = wan_quota_out st"
      and c2: "active_count_consistent st2"
      by blast
    have act: "session_active p ?s (?xs ! i) = active (?xs ! i)"
      using True by (simp add: session_active_def)
    show ?thesis
    proof (cases "addr (?xs ! i) = []")
      case empty: True
      have W2: "map without_bw (addresses st2) = take i ?W @ drop (Suc i) ?W"
        using w2 empty by (simp add: take_map drop_map)
      have len2: "length (addresses st2) = length ?xs - 1"
        using arg_cong [OF W2, of length] i by simp
      have lt: "length (addresses st2) < length ?xs" using len2 i by simp
      have stepeq: "multihashmap_visit (\<lambda>aa. peer aa = p) (destroy_by_session_id info) (Suc n) i st
            = multihashmap_visit (\<lambda>aa. peer aa = p) (destroy_by_session_id info) n i st2"
        using True it lt by simp
      have "i + n = length (addresses st2)" using len2 Suc.prems(1) by simp
      from Suc.IH [OF this c2] obtain st' where
        r: "multihashmap_visit (\<lambda>aa. peer aa = p) (destroy_by_session_id info) n i st2 = Inr st'"
        and w: "map without_bw (addresses st') =
           take i (map without_bw (addresses st2))
             @ List.map_filter (downgrade p ?s) (drop i (map without_bw (addresses st2)))"
        and b: "bandwidth_recalculations st' = bandwidth_recalculations st2
             + length (filter (session_active p ?s) (drop i (map without_bw (addresses st2))))"
        and q: "wan_quota_in st' = wan_quota_in st2" "wan_quota_out st' = wan_quota_out st2"
        and c: "active_count_consistent st'"
        by auto
      have tk: "take i (map without_bw (addresses st2)) = take i ?W"
        using i by (simp add: W2)
      have dr: "drop i (map without_bw (addresses st2)) = drop (Suc i) ?W"
        using i by (simp add: W2)
      have gone: "downgrade p ?s (without_bw (?xs ! i)) = None"
        using True empty by (simp add: downgrade_def)
      show ?thesis
        using stepeq r w b q c q2 b2 act gone by (simp add: tk dr d)
    next
      case nonempty: False
      let ?dg = "(?xs ! i)\<lparr>session_id := 0, active := False\<rparr>"
      have W2: "map without_bw (addresses st2) = ?W[i := without_bw ?dg]"
        using w2 nonempty by (simp add: map_update)
      have len2: "length (addresses st2) = length ?xs"
        using arg_cong [OF W2, of length] by simp
      have stepeq: "multihashmap_visit (\<lambda>aa. peer aa = p) (destroy_by_session_id info) (Suc n) i st
            = multihashmap_visit (\<lambda>aa. peer aa = p) (destroy_by_session_id info) n (Suc i) st2"
        using True it len2 by simp
      have "Suc i + n = length (addresses st2)" using len2 Suc.prems(1) by simp
      from Suc.IH [OF this c2] obtain st' where
        r: "multihashmap_visit (\<lambda>aa. peer aa = p) (destroy_by_session_id info) n (Suc i) st2 = Inr st'"
        and w: "map without_bw (addresses st') =
           take (Suc i) (map without_bw (addresses st2))
             @ List.map_filter (downgrade p ?s) (drop (Suc i) (map without_bw (addresses st2)))"
        and b: "bandwidth_recalculations st' = bandwidth_recalculations st2
             + length (filter (session_active p ?s) (drop (Suc i) (map without_bw (addresses st2))))"
        and q: "wan_quota_in st' = wan_quota_in st2" "wan_quota_out st' = wan_quota_out st2"
        and c: "active_count_consistent st'"
        by auto
      have tk: "take (Suc i) (map without_bw (addresses st2)) = take i ?W @ [without_bw ?dg]"
        using i by (simp add: W2 take_Suc_conv_app_nth)
      have dr: "drop (Suc i) (map without_bw (addresses st2)) = drop (Suc i) ?W"
        by (simp add: W2)
      have dgr: "downgrade p ?s (without_bw (?xs ! i)) = Some (without_bw ?dg)"
        using True nonempty by (simp add: downgrade_def) (simp add: without_bw_def)
      show ?thesis
        using stepeq r w b q c q2 b2 act dgr by (simp add: tk dr d)
    qed
  qed
qed

text \<open>
  The counter \<^verbatim>\<open>active_addr_count\<close> agrees with the number of active addresses in
  every reachable state: each operation that returns keeps the agreement.
\<close>

lemma multihashmap_visit_invariant:
  assumes "multihashmap_visit sel it n i st = Inr st'" and "P st"
    and "i + n \<le> length (addresses st)"
    and step: "\<And>i st st'. P st \<Longrightarrow> i < length (addresses st) \<Longrightarrow> it i st = Inr st' \<Longrightarrow>
       P st' \<and> (length (addresses st') = length (addresses st)
                  \<or> Suc (length (addresses st')) = length (addresses st))"
  shows "P st'"
  using assms(1-3)
proof (induction n arbitrary: i st)
  case 0
  then show ?case by simp
next
  case (Suc n)
  have i: "i < length (addresses st)" using Suc.prems(3) by simp
  show ?case
  proof (cases "sel (addresses st ! i)")
    case False
    then have "multihashmap_visit sel it n (Suc i) st = Inr st'" using Suc.prems(1) by simp
    then show ?thesis using Suc.IH [of "Suc i" st] Suc.prems(2,3) by simp
  next
    case True
    then obtain st1 where it: "it i st = Inr st1"
      and r: "multihashmap_visit sel it n
                (if length (addresses st1) < length (addresses st) then i else Suc i) st1 = Inr st'"
      using Suc.prems(1) by (cases "it i st") simp_all
    from step [OF Suc.prems(2) i it] have P1: "P st1"
      and len: "length (addresses st1) = length (addresses st)
                  \<or> Suc (length (addresses st1)) = length (addresses st)"
      by simp_all
    from len show ?thesis
    proof
      assume e: "length (addresses st1) = length (addresses st)"
      then have "multihashmap_visit sel it n (Suc i) st1 = Inr st'" using r by simp
      then show ?thesis using Suc.IH [OF _ P1, of "Suc i"] Suc.prems(3) e by simp
    next
      assume e: "Suc (length (addresses st1)) = length (addresses st)"
      then have "multihashmap_visit sel it n i st1 = Inr st'" using r by simp
      then show ?thesis using Suc.IH [OF _ P1, of i] Suc.prems(3) e by simp
    qed
  qed
qed

lemma consistent_remove_active:
  assumes c: "active_count_consistent st" and i: "i < length (addresses st)"
    and a: "active (addresses st ! i)"
  shows "active_count_consistent
           (st\<lparr>addresses := take i (addresses st) @ drop (Suc i) (addresses st),
               active_addr_count := active_addr_count st - 1\<rparr>)"
proof -
  have n: "length (filter active (take i (addresses st) @ drop (Suc i) (addresses st))) + 1
             = length (filter active (addresses st))"
    using length_filter_remove [OF i, of active] a by simp
  then have "unat (active_addr_count st) \<noteq> 0"
    using c unfolding active_count_consistent_def by linarith
  then have "active_addr_count st \<noteq> 0" by (simp add: unat_eq_zero)
  then have "unat (active_addr_count st - 1) = unat (active_addr_count st) - 1"
    by (rule unat_minus_one)
  then show ?thesis
    using c n by (simp add: active_count_consistent_def)
qed

lemma recalculate_consistent_length:
  assumes "active_count_consistent st" "recalculate_assigned_bw st = Inr st'"
  shows "active_count_consistent st' \<and> length (addresses st') = length (addresses st)"
proof -
  from recalculate_consistent [OF assms(1)] assms(2)
  have c: "active_count_consistent st'"
    and w: "map active (addresses st') = map active (addresses st)"
    by auto
  from arg_cong [OF w, of length] have "length (addresses st') = length (addresses st)" by simp
  then show ?thesis using c by simp
qed

lemma destroy_by_session_id_consistent:
  assumes c: "active_count_consistent st" and i: "i < length (addresses st)"
    and r: "destroy_by_session_id info i st = Inr st'"
  shows "active_count_consistent st'
         \<and> (length (addresses st') = length (addresses st)
             \<or> Suc (length (addresses st')) = length (addresses st))"
proof -
  let ?aa = "addresses st ! i"
  let ?rm = "take i (addresses st) @ drop (Suc i) (addresses st)"
  have lrm: "Suc (length ?rm) = length (addresses st)" using i by simp
  have p: "peer ?aa = peer info"
    using r by (auto simp: destroy_by_session_id_unfold Let_def split: if_splits)
  show ?thesis
  proof (cases "names_address info ?aa")
    case True
    show ?thesis
    proof (cases "active ?aa")
      case act: True
      let ?st1 = "st\<lparr>addresses := ?rm, active_addr_count := active_addr_count st - 1\<rparr>"
      have c1: "active_count_consistent ?st1" by (rule consistent_remove_active [OF c i act])
      have "recalculate_assigned_bw ?st1 = Inr st'"
        using r p True destroy_address_active [OF i act]
        by (simp add: destroy_by_session_id_unfold Let_def)
      from recalculate_consistent_length [OF c1 this]
      have "active_count_consistent st'" and "length (addresses st') = length ?rm" by simp_all
      then show ?thesis using lrm by metis
    next
      case inact: False
      have "st' = st\<lparr>addresses := ?rm\<rparr>"
        using r p True destroy_address_inactive [OF i inact]
        by (simp add: destroy_by_session_id_unfold Let_def)
      then have "active_count_consistent st'" and "length (addresses st') = length ?rm"
        using consistent_remove_inactive [OF c i inact] by simp_all
      then show ?thesis using lrm by metis
    qed
  next
    case nb: False
    show ?thesis
    proof (cases "session_id ?aa = session_id info")
      case False
      then have "st' = st" using r p nb by (simp add: destroy_by_session_id_unfold Let_def)
      then show ?thesis using c by simp
    next
      case s: True
      from destroy_by_session_id_downgrade [OF i p nb s c] r
      have c': "active_count_consistent st'"
        and w: "map without_bw (addresses st') =
         map without_bw
           (if addr ?aa = [] then ?rm
            else (addresses st)[i := ?aa\<lparr>session_id := 0, active := False\<rparr>])"
        by auto
      from arg_cong [OF w, of length]
      have "length (addresses st') = length ?rm \<or> length (addresses st') = length (addresses st)"
        by (simp split: if_splits)
      then have "length (addresses st') = length (addresses st)
             \<or> Suc (length (addresses st')) = length (addresses st)"
        using lrm by metis
      then show ?thesis using c' by simp
    qed
  qed
qed

lemma GAS_addresses_destroy_consistent:
  assumes c: "active_count_consistent st"
    and r: "GAS_addresses_destroy p plugin_name plugin_addr session st = Inr st'"
  shows "active_count_consistent st'"
proof -
  have v: "multihashmap_visit (\<lambda>aa. peer aa = p)
             (destroy_by_session_id (zero_address p plugin_name plugin_addr session))
             (length (addresses st)) 0 st = Inr st'"
    using r by (simp add: GAS_addresses_destroy_def multihashmap_get_multiple_def)
  show ?thesis
  proof (rule multihashmap_visit_invariant [where P = active_count_consistent, OF v c])
    show "0 + length (addresses st) \<le> length (addresses st)" by simp
  next
    fix i s s'
    assume "active_count_consistent s" "i < length (addresses s)"
      "destroy_by_session_id (zero_address p plugin_name plugin_addr session) i s = Inr s'"
    then show "active_count_consistent s'
         \<and> (length (addresses s') = length (addresses s)
             \<or> Suc (length (addresses s')) = length (addresses s))"
      by (rule destroy_by_session_id_consistent)
  qed
qed

lemma GAS_addresses_update_consistent:
  assumes c: "active_count_consistent st"
    and r: "GAS_addresses_update p pl ad se atsi st = Inr st'"
  shows "active_count_consistent st'"
proof (cases "find_address p (update_query p pl ad se atsi) st")
  case None
  have "st' = st\<lparr>addresses := addresses st @
                     [fold update_property atsi (update_query p pl ad se atsi)]\<rparr>"
    using r GAS_addresses_update_new [OF None] by simp
  then show ?thesis
    using c by (simp add: active_count_consistent_def fold_update_property_keeps)
next
  case (Some old)
  have old: "old < length (addresses st)"
    using find_address_from_Some [of p "update_query p pl ad se atsi" "addresses st" 0 old] Some
    by (simp add: find_address_def)
  have "st' = st\<lparr>addresses := (addresses st)[old :=
                  fold update_property atsi ((addresses st ! old)\<lparr>session_id := se, ats := atsi\<rparr>)]\<rparr>"
    using r GAS_addresses_update_existing [OF Some] by simp
  then show ?thesis
    using consistent_set_inactive_field [OF c old,
            of "fold update_property atsi ((addresses st ! old)\<lparr>session_id := se, ats := atsi\<rparr>)"]
    by (simp add: fold_update_property_keeps)
qed

lemma find_address_it_result:
  "find_address_it xs i ap = Some i \<or> (find_address_it xs i ap = ap \<and> ap \<noteq> None)"
  by (cases ap) (simp_all add: find_address_it_def Let_def)

lemma find_best_fold_bound:
  assumes "\<forall>i \<in> set js. i < n" "ap = None \<or> (\<exists>b. ap = Some b \<and> b < n)"
    and "fold (\<lambda>i ap. if P i then find_address_it xs i ap else ap) js ap = Some j"
  shows "j < n"
  using assms
proof (induction js arbitrary: ap)
  case Nil
  then show ?case by auto
next
  case (Cons i js)
  let ?ap' = "if P i then find_address_it xs i ap else ap"
  have "?ap' = None \<or> (\<exists>b. ?ap' = Some b \<and> b < n)"
    using Cons.prems(1,2) find_address_it_result [of xs i ap] by auto
  moreover have "fold (\<lambda>i ap. if P i then find_address_it xs i ap else ap) js ?ap' = Some j"
    using Cons.prems(3) by simp
  ultimately show ?case using Cons.IH [of ?ap'] Cons.prems(1) by simp
qed

lemma find_best_bound:
  "find_best p st = Some i \<Longrightarrow> i < length (addresses st)"
  unfolding find_best_def
  by (rule find_best_fold_bound [where ap = None and js = "[0..<length (addresses st)]"]) simp_all

lemma consistent_activate:
  assumes c: "active_count_consistent st" and i: "i < length (addresses st)"
    and a: "\<not> active (addresses st ! i)" and b: "active b"
    and bound: "length (addresses st) < 2 ^ 32"
  shows "active_count_consistent
           (st\<lparr>addresses := (addresses st)[i := b],
               active_addr_count := active_addr_count st + 1\<rparr>)"
proof -
  have n: "length (filter active ((addresses st)[i := b])) = length (filter active (addresses st)) + 1"
    using length_filter_update [OF i, of active b] a b by simp
  have "length (filter active ((addresses st)[i := b])) \<le> length ((addresses st)[i := b])"
    by (rule length_filter_le)
  then have "unat (active_addr_count st) + 1 < 2 ^ 32"
    using c n bound by (simp add: active_count_consistent_def)
  then have "unat (active_addr_count st + 1) = unat (active_addr_count st) + 1"
    by (simp add: unat_add_lem [THEN iffD1])
  then show ?thesis
    using c n by (simp add: active_count_consistent_def)
qed

lemma GAS_addresses_request_address_consistent:
  assumes c: "active_count_consistent st" and bound: "length (addresses st) < 2 ^ 32"
    and r: "GAS_addresses_request_address p st = Inr st'"
  shows "active_count_consistent st'"
proof (cases "find_best p st")
  case None
  then show ?thesis using r c by (simp add: GAS_addresses_request_address_def)
next
  case (Some i)
  have i: "i < length (addresses st)" by (rule find_best_bound [OF Some])
  show ?thesis
  proof (cases "active (addresses st ! i)")
    case True
    then have "st' = st\<lparr>calls := calls st @
                      [Scheduling_transmit_address_suggestion p (plugin (addresses st ! i))
                         (addr (addresses st ! i)) (session_id (addresses st ! i))
                         (ats (addresses st ! i)) (assigned_bw_out (addresses st ! i))
                         (assigned_bw_in (addresses st ! i))]\<rparr>"
      using r Some by (simp add: GAS_addresses_request_address_def Let_def)
    then show ?thesis using c by (simp add: active_count_consistent_def)
  next
    case False
    let ?st1 = "st\<lparr>addresses := (addresses st)[i := (addresses st ! i)\<lparr>active := True\<rparr>],
                    active_addr_count := active_addr_count st + 1\<rparr>"
    have c1: "active_count_consistent ?st1"
      by (rule consistent_activate [OF c i False _ bound]) simp
    have "recalculate_assigned_bw ?st1 = Inr st'"
      using r Some False by (simp add: GAS_addresses_request_address_def Let_def)
    from recalculate_consistent_length [OF c1 this] show ?thesis by simp
  qed
qed

lemma registry_reachable_consistent:
  "registry_reachable st \<Longrightarrow> active_count_consistent st"
proof (induction rule: registry_reachable.induct)
  case (reach_init quota_in quota_out)
  show ?case by (simp add: active_count_consistent_def GAS_addresses_init_def)
next
  case (reach_update st p plugin_name plugin_addr session atsi st')
  then show ?case using GAS_addresses_update_consistent by blast
next
  case (reach_destroy st p plugin_name plugin_addr session st')
  then show ?case using GAS_addresses_destroy_consistent by blast
next
  case (reach_request st p st')
  then show ?case using GAS_addresses_request_address_consistent by blast
qed

text \<open>
  C1. The invariant "at most one active address per peer" does not hold: in the
  scenario above the second request finds the inactive address with the shorter
  distance better than the active one and activates it too, so peer 1 ends with two
  active addresses. \<^verbatim>\<open>find_address_it\<close> keeps the address with assigned bandwidth
  only when it is visited second; its comment says that an existing address is kept.
\<close>

theorem request_activates_second_address:
  "\<not> isl two_active_scenario
   \<and> map peer (addresses (projr two_active_scenario)) = [1, 1]
   \<and> map addr (addresses (projr two_active_scenario)) = [[10, 0, 0, 1], [10, 0, 0, 2]]
   \<and> map active (addresses (projr two_active_scenario)) = [True, True]
   \<and> active_addr_count (projr two_active_scenario) = 2"
  by (simp add: two_active_scenario_def registry_defs)

text \<open>
  The share is stored in 32 bits: with a quota of \<^verbatim>\<open>2^32\<close> and one active address
  the assigned inbound bandwidth is 0, not the quota divided by 1.
\<close>

theorem share_truncated_counterexample:
  "\<not> isl large_quota_scenario
   \<and> map active (addresses (projr large_quota_scenario)) = [True]
   \<and> unat (wan_quota_in (projr large_quota_scenario))
        div length (filter active (addresses (projr large_quota_scenario))) = 4294967296
   \<and> map assigned_bw_in (addresses (projr large_quota_scenario)) = [0]"
  by (simp add: large_quota_scenario_def registry_defs)

text \<open>
  In the registry a recalculation notifies again with an unchanged triple: peer 1
  receives the address with bandwidth 1 and 1 after the second request and the same
  triple again after the third, each time through all three collaborators.
\<close>

theorem repeated_notification_counterexample:
  "\<not> isl repeated_share_scenario
   \<and> calls (projr repeated_share_scenario) =
       [Scheduling_transmit_address_suggestion 1 ''tcp'' [10, 0, 0, 1] 0 [] 3 3,
        Reservations_set_bandwidth 1 3,
        Performance_notify_clients 1 ''tcp'' [10, 0, 0, 1] [] 3 3,
        Scheduling_transmit_address_suggestion 1 ''tcp'' [10, 0, 0, 1] 0 [] 1 1,
        Reservations_set_bandwidth 1 1,
        Performance_notify_clients 1 ''tcp'' [10, 0, 0, 1] [] 1 1,
        Scheduling_transmit_address_suggestion 2 ''tcp'' [10, 0, 0, 2] 0 [] 1 1,
        Reservations_set_bandwidth 2 1,
        Performance_notify_clients 2 ''tcp'' [10, 0, 0, 2] [] 1 1,
        Scheduling_transmit_address_suggestion 1 ''tcp'' [10, 0, 0, 1] 0 [] 1 1,
        Reservations_set_bandwidth 1 1,
        Performance_notify_clients 1 ''tcp'' [10, 0, 0, 1] [] 1 1,
        Scheduling_transmit_address_suggestion 2 ''tcp'' [10, 0, 0, 2] 0 [] 1 1,
        Reservations_set_bandwidth 2 1,
        Performance_notify_clients 2 ''tcp'' [10, 0, 0, 2] [] 1 1,
        Scheduling_transmit_address_suggestion 3 ''tcp'' [10, 0, 0, 3] 0 [] 1 1,
        Reservations_set_bandwidth 3 1,
        Performance_notify_clients 3 ''tcp'' [10, 0, 0, 3] [] 1 1]"
  by (simp add: repeated_share_scenario_def registry_defs)

lemma session_scenario_state:
  "session_scenario = Inr
     \<lparr>addresses =
        [(zero_address 1 ''tcp'' [] 7)\<lparr>assigned_bw_in := 500, assigned_bw_out := 500, active := True\<rparr>,
         (zero_address 2 ''tcp'' [10, 0, 0, 2] 7)\<lparr>assigned_bw_in := 500, assigned_bw_out := 500, active := True\<rparr>],
      wan_quota_in = 1000, wan_quota_out = 1000, active_addr_count = 2,
      calls = calls (projr session_scenario),
      bandwidth_recalculations = 2\<rparr>"
  by (simp add: session_scenario_def registry_defs)

lemma fairness_four: "case fairness_scenario q of Inl err \<Rightarrow> False | Inr st \<Rightarrow>
   map active (addresses st) = [True, True, True, True] \<and>
   map assigned_bw_out (addresses st) = [250, 250, 250, 250]"
  by (simp add: fairness_scenario_def registry_defs)

lemma fairness_three:
  "case and_then (fairness_scenario q) (GAS_addresses_destroy 4 ''tcp'' [10, 0, 0, 4] 0) of
     Inl err \<Rightarrow> False
   | Inr st \<Rightarrow>
       map active (addresses st) = [True, True, True] \<and>
       map assigned_bw_out (addresses st) = [333, 333, 333]"
  by (simp add: fairness_scenario_def registry_defs)

text \<open>
  C2, amended. When the counter of active addresses is right, as it is in every
  reachable state, a recalculation does not abort, keeps every address active or inactive as it was, and assigns to each
  active address the inbound and the outbound quota divided by the number of active
  addresses, reduced modulo \<^verbatim>\<open>2^32\<close>, each direction from its own quota. With an
  outbound quota of 1000 and four active addresses every address gets 250, and after
  the address of one peer is destroyed the remaining three get 333.
\<close>

theorem recalculation_assigns_equal_share_mod_2_32:
  "(active_count_consistent st \<longrightarrow>
      (\<exists>st'. recalculate_assigned_bw st = Inr st'
           \<and> length (addresses st') = length (addresses st)
           \<and> (\<forall>i < length (addresses st).
                 active (addresses st' ! i) = active (addresses st ! i)
                 \<and> (active (addresses st ! i) \<longrightarrow>
                      unat (assigned_bw_in (addresses st' ! i))
                        = (unat (wan_quota_in st) div length (filter active (addresses st))) mod 2 ^ 32
                    \<and> unat (assigned_bw_out (addresses st' ! i))
                        = (unat (wan_quota_out st) div length (filter active (addresses st))) mod 2 ^ 32))))
   \<and> (case fairness_scenario q of
         Inl err \<Rightarrow> False
       | Inr st4 \<Rightarrow>
           map active (addresses st4) = [True, True, True, True]
           \<and> map assigned_bw_out (addresses st4) = [250, 250, 250, 250])
   \<and> (case and_then (fairness_scenario q) (GAS_addresses_destroy 4 ''tcp'' [10, 0, 0, 4] 0) of
         Inl err \<Rightarrow> False
       | Inr st3 \<Rightarrow>
           map active (addresses st3) = [True, True, True]
           \<and> map assigned_bw_out (addresses st3) = [333, 333, 333])"
  using recalculation_share [of st] fairness_four [of q] fairness_three [of q]
  by blast

theorem recalculation_assigns_equal_share_witness:
  "active_count_consistent (projr (fairness_scenario 1000))
   \<and> (\<exists>st'. recalculate_assigned_bw (projr (fairness_scenario 1000)) = Inr st'
         \<and> unat (assigned_bw_out (addresses st' ! 0)) = 250
         \<and> unat (assigned_bw_in (addresses st' ! 3)) = 250)"
proof -
  let ?S = "projr (fairness_scenario 1000)"
  have c: "active_count_consistent ?S"
    by (simp add: active_count_consistent_def fairness_scenario_def registry_defs)
  have f: "length (addresses ?S) = 4" "length (filter active (addresses ?S)) = 4"
    "active (addresses ?S ! 0)" "active (addresses ?S ! 3)"
    "wan_quota_in ?S = 1000" "wan_quota_out ?S = 1000"
    by (simp_all add: fairness_scenario_def registry_defs)
  from recalculation_assigns_equal_share_mod_2_32 [of ?S 1000] c
  obtain st' where
    r: "recalculate_assigned_bw ?S = Inr st'"
    and a: "\<forall>i < length (addresses ?S).
                 active (addresses st' ! i) = active (addresses ?S ! i)
                 \<and> (active (addresses ?S ! i) \<longrightarrow>
                      unat (assigned_bw_in (addresses st' ! i))
                        = (unat (wan_quota_in ?S) div length (filter active (addresses ?S))) mod 2 ^ 32
                    \<and> unat (assigned_bw_out (addresses st' ! i))
                        = (unat (wan_quota_out ?S) div length (filter active (addresses ?S))) mod 2 ^ 32)"
    by blast
  have "unat (assigned_bw_out (addresses st' ! 0)) = 250"
    using a [rule_format, of 0] f by simp
  moreover have "unat (assigned_bw_in (addresses st' ! 3)) = 250"
    using a [rule_format, of 3] f by simp
  ultimately show ?thesis using c r by blast
qed

lemma active_after_downgrade:
  "length (filter active (List.map_filter (downgrade p s) ys))
     + length (filter (session_active p s) ys) = length (filter active ys)"
  by (induction ys) (auto simp: downgrade_def session_active_def List.map_filter_simps)

lemma filter_active_without_bw:
  "length (filter active (map without_bw ys)) = length (filter active ys)"
  by (induction ys) simp_all

text \<open>
  C5. \<^verbatim>\<open>GAS_addresses_destroy\<close> with a nonzero session, on a registry whose counter of
  active addresses is right, as it is in every reachable state, does not abort. Up to the assigned bandwidth, every
  address of the peer with that session has its session cleared and is inactive
  afterwards, it is removed exactly when its raw address is empty, and every other
  address is unchanged. The counter of active addresses goes down by one for each
  such address that was active, and one recalculation is made for each of them.
\<close>

theorem session_downgrade:
  assumes "session \<noteq> 0" and "active_count_consistent st"
  shows "\<exists>st'. GAS_addresses_destroy p plugin_name plugin_addr session st = Inr st'
     \<and> map without_bw (addresses st')
         = List.map_filter (downgrade p session) (map without_bw (addresses st))
     \<and> unat (active_addr_count st') + length (filter (session_active p session) (addresses st))
         = unat (active_addr_count st)
     \<and> bandwidth_recalculations st'
         = bandwidth_recalculations st + length (filter (session_active p session) (addresses st))
     \<and> active_count_consistent st'"
proof -
  let ?info = "zero_address p plugin_name plugin_addr session"
  have s0: "session_id ?info \<noteq> 0" and pi: "peer ?info = p" and si: "session_id ?info = session"
    using assms(1) by (simp_all add: zero_address_def)
  from visit_destroy_by_session [of 0 "length (addresses st)" st ?info p, OF _ assms(2) s0 pi]
  obtain st' where
    r: "GAS_addresses_destroy p plugin_name plugin_addr session st = Inr st'"
    and w: "map without_bw (addresses st')
              = List.map_filter (downgrade p session) (map without_bw (addresses st))"
    and b: "bandwidth_recalculations st' = bandwidth_recalculations st
              + length (filter (session_active p session) (map without_bw (addresses st)))"
    and c: "active_count_consistent st'"
    unfolding si by (auto simp: GAS_addresses_destroy_def multihashmap_get_multiple_def)
  have "unat (active_addr_count st') = length (filter active (map without_bw (addresses st')))"
    using c unfolding active_count_consistent_def filter_active_without_bw .
  also have "\<dots> = length (filter active
                       (List.map_filter (downgrade p session) (map without_bw (addresses st))))"
    unfolding w ..
  finally have "unat (active_addr_count st')
      + length (filter (session_active p session) (map without_bw (addresses st)))
      = length (filter active (map without_bw (addresses st)))"
    using active_after_downgrade [of p session "map without_bw (addresses st)"] by linarith
  then have n: "unat (active_addr_count st')
      + length (filter (session_active p session) (addresses st)) = unat (active_addr_count st)"
    using assms(2)
    unfolding filter_session_active_without_bw filter_active_without_bw
      active_count_consistent_def by linarith
  have b': "bandwidth_recalculations st' = bandwidth_recalculations st
              + length (filter (session_active p session) (addresses st))"
    using b unfolding filter_session_active_without_bw .
  show ?thesis
    using r w b' c n by blast
qed

theorem session_downgrade_witness:
  "(7::u32) \<noteq> 0 \<and> active_count_consistent (projr session_scenario)
   \<and> (\<exists>st'. GAS_addresses_destroy 1 ''tcp'' [] 7 (projr session_scenario) = Inr st'
         \<and> map without_bw (addresses st')
             = [(zero_address 2 ''tcp'' [10, 0, 0, 2] 7)\<lparr>active := True\<rparr>]
         \<and> unat (active_addr_count st') = 1)
   \<and> (\<exists>st'. GAS_addresses_destroy 2 ''tcp'' [] 7 (projr session_scenario) = Inr st'
         \<and> map without_bw (addresses st')
             = [(zero_address 1 ''tcp'' [] 7)\<lparr>active := True\<rparr>,
                zero_address 2 ''tcp'' [10, 0, 0, 2] 0]
         \<and> unat (active_addr_count st') = 1)"
proof -
  let ?S = "projr session_scenario"
  have seven: "(7::u32) \<noteq> 0" by simp
  have S: "addresses ?S =
        [(zero_address 1 ''tcp'' [] 7)\<lparr>assigned_bw_in := 500, assigned_bw_out := 500, active := True\<rparr>,
         (zero_address 2 ''tcp'' [10, 0, 0, 2] 7)\<lparr>assigned_bw_in := 500, assigned_bw_out := 500, active := True\<rparr>]"
    and cnt: "active_addr_count ?S = 2"
    by (subst session_scenario_state, simp)+
  have c: "active_count_consistent ?S"
    by (simp add: active_count_consistent_def S cnt zero_address_def)
  have one: "\<exists>st'. GAS_addresses_destroy 1 ''tcp'' [] 7 ?S = Inr st'
         \<and> map without_bw (addresses st')
             = [(zero_address 2 ''tcp'' [10, 0, 0, 2] 7)\<lparr>active := True\<rparr>]
         \<and> unat (active_addr_count st') = 1"
    using session_downgrade [OF seven c, of 1 "''tcp''" "[]"]
    by (auto simp: S cnt downgrade_def session_active_def without_bw_def zero_address_def
          List.map_filter_simps)
  have two: "\<exists>st'. GAS_addresses_destroy 2 ''tcp'' [] 7 ?S = Inr st'
         \<and> map without_bw (addresses st')
             = [(zero_address 1 ''tcp'' [] 7)\<lparr>active := True\<rparr>,
                zero_address 2 ''tcp'' [10, 0, 0, 2] 0]
         \<and> unat (active_addr_count st') = 1"
    using session_downgrade [OF seven c, of 2 "''tcp''" "[]"]
    by (auto simp: S cnt downgrade_def session_active_def without_bw_def zero_address_def
          List.map_filter_simps)
  show ?thesis using seven c one two by blast
qed

section \<open>Facts about the reinforcement-learning solver\<close>

text \<open>A suggestion that names an address.\<close>

lemma envi_set_active_suggestion_Some:
  assumes "k < length (agents s)"
  shows "\<exists>s'. envi_set_active_suggestion s k (Some a) bi bo silent = Inr s'
     \<and> length (agents s') = length (agents s)
     \<and> (\<forall>j. j \<noteq> k \<longrightarrow> agents s' ! j = agents s ! j)
     \<and> agents s' ! k = (agents s ! k)\<lparr>bw_in := bi, bw_out := bo, address_inuse := Some a\<rparr>
     \<and> network_entries s' = network_entries s
     \<and> parameters s' = parameters s
     \<and> get_property s' = get_property s
     \<and> (\<forall>x. address_peer (heap s' x) = address_peer (heap s x)
            \<and> solver_information (heap s' x) = solver_information (heap s x))
     \<and> address_active (heap s' a) = agent_active (agents s ! k)"
  using assms
  by (auto simp: envi_set_active_suggestion_def Let_def split: option.splits)

lemmas RIL_ACTION_defs =
  RIL_ACTION_INVALID_def RIL_ACTION_NOTHING_def RIL_ACTION_BW_IN_DBL_def
  RIL_ACTION_BW_IN_HLV_def RIL_ACTION_BW_IN_INC_def RIL_ACTION_BW_IN_DEC_def
  RIL_ACTION_BW_OUT_DBL_def RIL_ACTION_BW_OUT_HLV_def RIL_ACTION_BW_OUT_INC_def
  RIL_ACTION_BW_OUT_DEC_def RIL_ACTION_TYPE_NUM_def

lemma ucast_five_times:
  assumes "5 * unat (w::u32) < 2 ^ 32"
  shows "(ucast (5 * w) :: u64) = 5 * ucast w"
proof -
  have w: "unat w < 2 ^ 32" using unsigned_less [of w] by simp
  have a: "unat (5 * w) = 5 * unat w"
    using assms by (simp add: unat_word_ariths)
  have "unat (ucast (5 * w) :: u64) = 5 * unat w"
    using assms a by (simp add: unsigned_ucast_eq take_bit_eq_mod)
  moreover have "unat (5 * (ucast w :: u64)) = 5 * unat w"
    using assms w by (simp add: unat_word_ariths unsigned_ucast_eq take_bit_eq_mod)
  ultimately show ?thesis by (simp add: word_unat_eq_iff)
qed

lemma clamp_least:
  "(m::u64) \<le> (if x < m then m else x)"
  by (simp add: not_less)

text \<open>
  C7. For an agent that takes part in the periodic step (active, with an address in
  use) and a minimum bandwidth whose fivefold fits 32 bits: halving and decrementing
  the inbound or the outbound bandwidth leave it at or above the minimum, and the
  increment adds five times the minimum.
\<close>

theorem bandwidth_actions_keep_minimum:
  assumes "k < length (agents s)"
    and "agent_active (agents s ! k) \<and> address_inuse (agents s ! k) \<noteq> None"
    and "5 * unat (DEFAULT_BW_IN_OUT c) < 2 ^ 32"
  shows "(\<exists>s'. envi_do_action c s k RIL_ACTION_BW_IN_HLV = Inr s'
            \<and> ucast (DEFAULT_BW_IN_OUT c) \<le> bw_in (agents s' ! k)
            \<and> bw_in (agents s' ! k) =
                (if bw_in (agents s ! k) div 2 < ucast (DEFAULT_BW_IN_OUT c)
                 then ucast (DEFAULT_BW_IN_OUT c) else bw_in (agents s ! k) div 2))
       \<and> (\<exists>s'. envi_do_action c s k RIL_ACTION_BW_OUT_HLV = Inr s'
            \<and> ucast (DEFAULT_BW_IN_OUT c) \<le> bw_out (agents s' ! k)
            \<and> bw_out (agents s' ! k) =
                (if bw_out (agents s ! k) div 2 < ucast (DEFAULT_BW_IN_OUT c)
                 then ucast (DEFAULT_BW_IN_OUT c) else bw_out (agents s ! k) div 2))
       \<and> (\<exists>s'. envi_do_action c s k RIL_ACTION_BW_IN_DEC = Inr s'
            \<and> ucast (DEFAULT_BW_IN_OUT c) \<le> bw_in (agents s' ! k)
            \<and> bw_in (agents s' ! k) =
                (if bw_in (agents s ! k) - 5 * ucast (DEFAULT_BW_IN_OUT c) < ucast (DEFAULT_BW_IN_OUT c)
                 then ucast (DEFAULT_BW_IN_OUT c)
                 else bw_in (agents s ! k) - 5 * ucast (DEFAULT_BW_IN_OUT c)))
       \<and> (\<exists>s'. envi_do_action c s k RIL_ACTION_BW_OUT_DEC = Inr s'
            \<and> ucast (DEFAULT_BW_IN_OUT c) \<le> bw_out (agents s' ! k)
            \<and> bw_out (agents s' ! k) =
                (if bw_out (agents s ! k) - 5 * ucast (DEFAULT_BW_IN_OUT c) < ucast (DEFAULT_BW_IN_OUT c)
                 then ucast (DEFAULT_BW_IN_OUT c)
                 else bw_out (agents s ! k) - 5 * ucast (DEFAULT_BW_IN_OUT c)))
       \<and> (\<exists>s'. envi_do_action c s k RIL_ACTION_BW_IN_INC = Inr s'
            \<and> bw_in (agents s' ! k) = bw_in (agents s ! k) + 5 * ucast (DEFAULT_BW_IN_OUT c))
       \<and> (\<exists>s'. envi_do_action c s k RIL_ACTION_BW_OUT_INC = Inr s'
            \<and> bw_out (agents s' ! k) = bw_out (agents s ! k) + 5 * ucast (DEFAULT_BW_IN_OUT c))"
proof -
  from assms(2) obtain a where a: "address_inuse (agents s ! k) = Some a" by auto
  note five = ucast_five_times [OF assms(3)]
  note sugg = envi_set_active_suggestion_Some [OF assms(1), of a]
  have hin: "\<exists>s'. envi_do_action c s k RIL_ACTION_BW_IN_HLV = Inr s'
            \<and> ucast (DEFAULT_BW_IN_OUT c) \<le> bw_in (agents s' ! k)
            \<and> bw_in (agents s' ! k) =
                (if bw_in (agents s ! k) div 2 < ucast (DEFAULT_BW_IN_OUT c)
                 then ucast (DEFAULT_BW_IN_OUT c) else bw_in (agents s ! k) div 2)"
    using sugg [of "if bw_in (agents s ! k) div 2 < ucast (DEFAULT_BW_IN_OUT c)
                 then ucast (DEFAULT_BW_IN_OUT c) else bw_in (agents s ! k) div 2"
                "bw_out (agents s ! k)" False]
    by (auto simp: envi_do_action_def envi_action_bw_halven_def RIL_ACTION_defs a Let_def)
  have hout: "\<exists>s'. envi_do_action c s k RIL_ACTION_BW_OUT_HLV = Inr s'
            \<and> ucast (DEFAULT_BW_IN_OUT c) \<le> bw_out (agents s' ! k)
            \<and> bw_out (agents s' ! k) =
                (if bw_out (agents s ! k) div 2 < ucast (DEFAULT_BW_IN_OUT c)
                 then ucast (DEFAULT_BW_IN_OUT c) else bw_out (agents s ! k) div 2)"
    using sugg [of "bw_in (agents s ! k)"
                "if bw_out (agents s ! k) div 2 < ucast (DEFAULT_BW_IN_OUT c)
                 then ucast (DEFAULT_BW_IN_OUT c) else bw_out (agents s ! k) div 2" False]
    by (auto simp: envi_do_action_def envi_action_bw_halven_def RIL_ACTION_defs a Let_def)
  have din: "\<exists>s'. envi_do_action c s k RIL_ACTION_BW_IN_DEC = Inr s'
            \<and> ucast (DEFAULT_BW_IN_OUT c) \<le> bw_in (agents s' ! k)
            \<and> bw_in (agents s' ! k) =
                (if bw_in (agents s ! k) - 5 * ucast (DEFAULT_BW_IN_OUT c) < ucast (DEFAULT_BW_IN_OUT c)
                 then ucast (DEFAULT_BW_IN_OUT c)
                 else bw_in (agents s ! k) - 5 * ucast (DEFAULT_BW_IN_OUT c))"
    using sugg [of "if bw_in (agents s ! k) - 5 * ucast (DEFAULT_BW_IN_OUT c) < ucast (DEFAULT_BW_IN_OUT c)
                 then ucast (DEFAULT_BW_IN_OUT c)
                 else bw_in (agents s ! k) - 5 * ucast (DEFAULT_BW_IN_OUT c)"
                "bw_out (agents s ! k)" False]
    by (auto simp: envi_do_action_def envi_action_bw_dec_def RIL_ACTION_defs a Let_def five)
  have dout: "\<exists>s'. envi_do_action c s k RIL_ACTION_BW_OUT_DEC = Inr s'
            \<and> ucast (DEFAULT_BW_IN_OUT c) \<le> bw_out (agents s' ! k)
            \<and> bw_out (agents s' ! k) =
                (if bw_out (agents s ! k) - 5 * ucast (DEFAULT_BW_IN_OUT c) < ucast (DEFAULT_BW_IN_OUT c)
                 then ucast (DEFAULT_BW_IN_OUT c)
                 else bw_out (agents s ! k) - 5 * ucast (DEFAULT_BW_IN_OUT c))"
    using sugg [of "bw_in (agents s ! k)"
                "if bw_out (agents s ! k) - 5 * ucast (DEFAULT_BW_IN_OUT c) < ucast (DEFAULT_BW_IN_OUT c)
                 then ucast (DEFAULT_BW_IN_OUT c)
                 else bw_out (agents s ! k) - 5 * ucast (DEFAULT_BW_IN_OUT c)" False]
    by (auto simp: envi_do_action_def envi_action_bw_dec_def RIL_ACTION_defs a Let_def five)
  have iin: "\<exists>s'. envi_do_action c s k RIL_ACTION_BW_IN_INC = Inr s'
            \<and> bw_in (agents s' ! k) = bw_in (agents s ! k) + 5 * ucast (DEFAULT_BW_IN_OUT c)"
    using sugg [of "bw_in (agents s ! k) + 5 * ucast (DEFAULT_BW_IN_OUT c)" "bw_out (agents s ! k)" False]
    by (auto simp: envi_do_action_def envi_action_bw_inc_def RIL_ACTION_defs a Let_def five)
  have iout: "\<exists>s'. envi_do_action c s k RIL_ACTION_BW_OUT_INC = Inr s'
            \<and> bw_out (agents s' ! k) = bw_out (agents s ! k) + 5 * ucast (DEFAULT_BW_IN_OUT c)"
    using sugg [of "bw_in (agents s ! k)" "bw_out (agents s ! k) + 5 * ucast (DEFAULT_BW_IN_OUT c)" False]
    by (auto simp: envi_do_action_def envi_action_bw_inc_def RIL_ACTION_defs a Let_def five)
  show ?thesis
    by (intro conjI) (rule hin, rule hout, rule din, rule dout, rule iin, rule iout)
qed

lemma agent_same_inuse:
  "address_inuse (ag::RIL_Peer_Agent) = na \<Longrightarrow> ag\<lparr>address_inuse := na\<rparr> = ag"
  by auto

lemma envi_set_active_suggestion_settled:
  assumes "k < length (agents s)"
    and "address_inuse (agents s ! k) = na"
    and "\<And>a. na = Some a \<Longrightarrow>
           address_active (heap s a) = agent_active (agents s ! k)
           \<and> bw_in (agents s ! k) = bi \<and> bw_out (agents s ! k) = bo"
  shows "envi_set_active_suggestion s k na bi bo silent = Inr s"
proof (cases na)
  case None
  then show ?thesis
    using assms(1,2)
    by (simp add: envi_set_active_suggestion_def Let_def agent_same_inuse)
next
  case (Some a)
  then show ?thesis
    using assms(1,2) assms(3) [OF Some]
    by (simp add: envi_set_active_suggestion_def Let_def agent_same_inuse)
qed

lemma envi_set_active_suggestion_None:
  assumes "k < length (agents s)"
    and "envi_set_active_suggestion s k None bi bo silent = Inr s'"
  shows "length (agents s') = length (agents s)
     \<and> address_inuse (agents s' ! k) = None
     \<and> length (bandwidth_changed s') \<le> length (bandwidth_changed s) + 1"
  using assms
  by (auto simp: envi_set_active_suggestion_def Let_def split: option.splits if_splits)

lemma envi_set_active_suggestion_calls:
  assumes "k < length (agents s)"
    and "envi_set_active_suggestion s k na bi bo silent = Inr s'"
  shows "length (bandwidth_changed s') \<le> length (bandwidth_changed s) + 1"
  using assms
  by (auto simp: envi_set_active_suggestion_def Let_def split: option.splits if_splits)

lemma envi_set_active_suggestion_twice:
  assumes k: "k < length (agents s)"
    and first: "envi_set_active_suggestion s k na bi bo silent = Inr s1"
  shows "envi_set_active_suggestion s1 k na bi bo silent' = Inr s1"
proof (cases na)
  case None
  from envi_set_active_suggestion_None [OF k first [unfolded None]]
  have "k < length (agents s1)" "address_inuse (agents s1 ! k) = None"
    using k by simp_all
  then show ?thesis
    unfolding None by (intro envi_set_active_suggestion_settled) simp_all
next
  case (Some a)
  from envi_set_active_suggestion_Some [OF k, of a bi bo silent] first
  have l: "length (agents s1) = length (agents s)"
    and ag: "agents s1 ! k = (agents s ! k)\<lparr>bw_in := bi, bw_out := bo, address_inuse := Some a\<rparr>"
    and act: "address_active (heap s1 a) = agent_active (agents s ! k)"
    unfolding Some by auto
  show ?thesis
    unfolding Some
    by (rule envi_set_active_suggestion_settled) (use k l ag act in simp_all)
qed

lemma ril_find_agent_Some:
  "ril_find_agent xs p i = Some j \<Longrightarrow>
     i \<le> j \<and> j - i < length xs \<and> agent_peer (xs ! (j - i)) = p"
proof (induction xs arbitrary: i)
  case Nil
  then show ?case by simp
next
  case (Cons x rest)
  show ?case
  proof (cases "p = agent_peer x")
    case True
    then show ?thesis using Cons.prems by auto
  next
    case False
    then have r: "ril_find_agent rest p (Suc i) = Some j" using Cons.prems by simp
    from Cons.IH [OF r] have "Suc i \<le> j" "j - Suc i < length rest"
      "agent_peer (rest ! (j - Suc i)) = p" by auto
    moreover from \<open>Suc i \<le> j\<close> have "j - i = Suc (j - Suc i)" by simp
    ultimately show ?thesis by simp
  qed
qed

lemma ril_find_agent_update:
  "ril_find_agent xs p i = Some j \<Longrightarrow> agent_peer b = p \<Longrightarrow>
   ril_find_agent (xs[j - i := b]) p i = Some j"
proof (induction xs arbitrary: i)
  case Nil
  then show ?case by simp
next
  case (Cons x rest)
  show ?case
  proof (cases "p = agent_peer x")
    case True
    then have "j = i" using Cons.prems(1) by simp
    then show ?thesis using Cons.prems(2) by simp
  next
    case False
    then have r: "ril_find_agent rest p (Suc i) = Some j" using Cons.prems by simp
    have "Suc i \<le> j" using ril_find_agent_Some [OF r] by simp
    then have e: "j - i = Suc (j - Suc i)" by simp
    show ?thesis using False Cons.IH [OF r Cons.prems(2)] by (auto simp: e)
  qed
qed

lemma grow_rows:
  assumes "length W0 = n0" "\<forall>row \<in> set W0. length row = m0"
  shows "map (\<lambda>i. if i < n0
                   then GNUNET_array_grow 0 (GNUNET_array_grow [] W0 n0 (n0 + 1) ! i) m0 (m0 + f)
                   else GNUNET_array_grow 0 (GNUNET_array_grow [] W0 n0 (n0 + 1) ! i) 0 (m0 + f))
           [0..<n0 + 1]
         = grown_W f W0 m0"
proof -
  let ?F = "\<lambda>i. if i < n0
                   then GNUNET_array_grow 0 ((W0 @ [[]]) ! i) m0 (m0 + f)
                   else GNUNET_array_grow 0 ((W0 @ [[]]) ! i) 0 (m0 + f)"
  have g: "GNUNET_array_grow [] W0 n0 (n0 + 1) = W0 @ [[]]"
    using assms(1) by (simp add: GNUNET_array_grow_def)
  have split: "[0..<n0 + 1] = [0..<n0] @ [n0]" by simp
  have A: "map ?F [0..<n0] = map (\<lambda>row. row @ replicate f 0) W0"
  proof (rule nth_equalityI)
    show "length (map ?F [0..<n0]) = length (map (\<lambda>row. row @ replicate f 0) W0)"
      using assms(1) by simp
  next
    fix i assume "i < length (map ?F [0..<n0])"
    then have i: "i < n0" by simp
    then have "length (W0 ! i) = m0" using assms by simp
    then show "map ?F [0..<n0] ! i = map (\<lambda>row. row @ replicate f 0) W0 ! i"
      using i assms(1) by (simp add: GNUNET_array_grow_def nth_append)
  qed
  have B: "?F n0 = replicate (m0 + f) 0"
    using assms(1) by (simp add: GNUNET_array_grow_def nth_append)
  show ?thesis
    unfolding g split map_append A grown_W_def
    using assms(1) by (simp add: GNUNET_array_grow_def nth_append)
qed

lemma map_update_same_field:
  assumes that: "f x = f (xs ! j)"
  shows "map f (xs[j := x]) = map f xs"
proof (rule nth_equalityI)
  show "length (map f (xs[j := x])) = length (map f xs)" by simp
next
  fix i assume "i < length (map f (xs[j := x]))"
  then have i: "i < length xs" by simp
  show "map f (xs[j := x]) ! i = map f xs ! i"
  proof (cases "i = j")
    case True
    then show ?thesis using i that by simp
  next
    case False
    then show ?thesis using i by simp
  qed
qed

lemma map_add_bw_assigned:
  "map net_type (add_bw_assigned j d_in d_out nets) = map net_type nets"
  "map bw_out_available (add_bw_assigned j d_in d_out nets) = map bw_out_available nets"
  by (simp_all add: add_bw_assigned_def map_update_same_field)

lemma GAS_ril_address_add_grows:
  assumes find: "ril_find_agent (agents s) (address_peer (heap s a1)) 0 = Some k"
    and net: "ril_get_network s t = Some j"
    and act: "\<not> bw_out_available (network_entries s ! j) < ucast (DEFAULT_BW_IN_OUT c)"
  shows "\<exists>s1. GAS_ril_address_add c s a1 t = Inr s1
     \<and> length (agents s1) = length (agents s)
     \<and> (\<forall>i. i \<noteq> k \<longrightarrow> agents s1 ! i = agents s ! i)
     \<and> length (network_entries s1) = length (network_entries s)
     \<and> (\<forall>x. address_peer (heap s1 x) = address_peer (heap s x))
     \<and> agent_peer (agents s1 ! k) = agent_peer (agents s ! k)
     \<and> agent_addresses (agents s1 ! k) = agent_addresses (agents s ! k) @ [a1]
     \<and> agent_n (agents s1 ! k) = agent_n (agents s ! k) + 1
     \<and> agent_m (agents s1 ! k) = agent_m (agents s ! k) + RIL_FEATURES_ADDRESS_COUNT c
     \<and> a_old (agents s1 ! k) = a_old (agents s ! k)
     \<and> agent_W (agents s1 ! k) =
         map (\<lambda>i. if i < agent_n (agents s ! k)
                   then GNUNET_array_grow 0
                          (GNUNET_array_grow [] (agent_W (agents s ! k)) (agent_n (agents s ! k))
                             (agent_n (agents s ! k) + 1) ! i)
                          (agent_m (agents s ! k))
                          (agent_m (agents s ! k) + RIL_FEATURES_ADDRESS_COUNT c)
                   else GNUNET_array_grow 0
                          (GNUNET_array_grow [] (agent_W (agents s ! k)) (agent_n (agents s ! k))
                             (agent_n (agents s ! k) + 1) ! i)
                          0 (agent_m (agents s ! k) + RIL_FEATURES_ADDRESS_COUNT c))
           [0..<agent_n (agents s ! k) + 1]
     \<and> s_old (agents s1 ! k) =
         GNUNET_array_grow 0 (s_old (agents s ! k)) (agent_m (agents s ! k))
           (agent_m (agents s ! k) + RIL_FEATURES_ADDRESS_COUNT c)
     \<and> agent_e (agents s1 ! k) =
         GNUNET_array_grow 0 (agent_e (agents s ! k)) (agent_m (agents s ! k))
           (agent_m (agents s ! k) + RIL_FEATURES_ADDRESS_COUNT c)
     \<and> map net_type (network_entries s1) = map net_type (network_entries s)
     \<and> map bw_out_available (network_entries s1) = map bw_out_available (network_entries s)"
proof -
  let ?s1 = "s\<lparr>heap := (heap s)(a1 := (heap s a1)\<lparr>solver_information := j\<rparr>)\<rparr>"
  have k: "k < length (agents s)" using ril_find_agent_Some [OF find] by simp
  have netact: "ril_network_is_active c ?s1 t = Inr True"
    using net act by (simp add: ril_network_is_active_def ril_get_network_def)
  have ag: "ril_get_agent c ?s1 (address_peer (heap ?s1 a1)) True = (?s1, Some k)"
    using find by (simp add: ril_get_agent_def)
  let ?ag = "agents s ! k"
  let ?ag' = "?ag\<lparr>agent_addresses := agent_addresses ?ag @ [a1],
        agent_W := map (\<lambda>i. if i < agent_n ?ag
                   then GNUNET_array_grow 0
                          (GNUNET_array_grow [] (agent_W ?ag) (agent_n ?ag) (agent_n ?ag + 1) ! i)
                          (agent_m ?ag) (agent_m ?ag + RIL_FEATURES_ADDRESS_COUNT c)
                   else GNUNET_array_grow 0
                          (GNUNET_array_grow [] (agent_W ?ag) (agent_n ?ag) (agent_n ?ag + 1) ! i)
                          0 (agent_m ?ag + RIL_FEATURES_ADDRESS_COUNT c))
           [0..<agent_n ?ag + 1],
        agent_n := agent_n ?ag + 1, agent_m := agent_m ?ag + RIL_FEATURES_ADDRESS_COUNT c,
        s_old := GNUNET_array_grow 0 (s_old ?ag) (agent_m ?ag)
                   (agent_m ?ag + RIL_FEATURES_ADDRESS_COUNT c),
        agent_e := GNUNET_array_grow 0 (agent_e ?ag) (agent_m ?ag)
                   (agent_m ?ag + RIL_FEATURES_ADDRESS_COUNT c)\<rparr>"
  let ?s3 = "?s1\<lparr>agents := (agents ?s1)[k := ?ag']\<rparr>"
  have step: "GAS_ril_address_add c s a1 t =
     (if address_inuse ?ag = None
      then envi_set_active_suggestion
             (?s3\<lparr>network_entries :=
                   add_bw_assigned j (ucast (DEFAULT_BW_IN_OUT c)) (ucast (DEFAULT_BW_IN_OUT c))
                     (network_entries ?s3)\<rparr>)
             k (Some a1) (ucast (DEFAULT_BW_IN_OUT c)) (ucast (DEFAULT_BW_IN_OUT c)) False
      else Inr ?s3)"
    using net netact ag k
    by (simp add: GAS_ril_address_add_def Let_def cong: if_cong)
  show ?thesis
  proof (cases "address_inuse ?ag = None")
    case False
    then obtain y where "address_inuse ?ag = Some y" by auto
    then have "GAS_ril_address_add c s a1 t = Inr ?s3" using step by simp
    then show ?thesis using k by simp
  next
    case True
    let ?s4 = "?s3\<lparr>network_entries :=
                   add_bw_assigned j (ucast (DEFAULT_BW_IN_OUT c)) (ucast (DEFAULT_BW_IN_OUT c))
                     (network_entries ?s3)\<rparr>"
    have k4: "k < length (agents ?s4)" using k by simp
    from envi_set_active_suggestion_Some [OF k4, of a1 "ucast (DEFAULT_BW_IN_OUT c)"
           "ucast (DEFAULT_BW_IN_OUT c)" False]
    obtain s5 where
      r: "envi_set_active_suggestion ?s4 k (Some a1) (ucast (DEFAULT_BW_IN_OUT c))
            (ucast (DEFAULT_BW_IN_OUT c)) False = Inr s5"
      and l: "length (agents s5) = length (agents ?s4)"
      and o: "\<forall>i. i \<noteq> k \<longrightarrow> agents s5 ! i = agents ?s4 ! i"
      and a: "agents s5 ! k = (agents ?s4 ! k)\<lparr>bw_in := ucast (DEFAULT_BW_IN_OUT c),
                 bw_out := ucast (DEFAULT_BW_IN_OUT c), address_inuse := Some a1\<rparr>"
      and ne: "network_entries s5 = network_entries ?s4"
      and hp: "\<forall>x. address_peer (heap s5 x) = address_peer (heap ?s4 x)
                 \<and> solver_information (heap s5 x) = solver_information (heap ?s4 x)"
      by blast
    have "GAS_ril_address_add c s a1 t = Inr s5" using step True r by simp
    moreover have "length (network_entries s5) = length (network_entries s)"
      using ne by (simp add: add_bw_assigned_def)
    moreover have "\<forall>x. address_peer (heap s5 x) = address_peer (heap s x)"
      using hp by simp
    moreover have "map net_type (network_entries s5) = map net_type (network_entries s)"
      "map bw_out_available (network_entries s5) = map bw_out_available (network_entries s)"
      using ne by (simp_all add: map_add_bw_assigned)
    ultimately show ?thesis using l o a k by simp
  qed
qed

lemma ril_cut_from_vector_ok:
  assumes "length old = old_length" "hole_length < old_length"
    "hole_start + hole_length \<le> old_length"
  shows "ril_cut_from_vector old hole_start hole_length old_length
           = Inr (without_slice hole_start hole_length old)"
  using assms by (simp add: ril_cut_from_vector_def without_slice_def)

lemma cut_rows_ok:
  assumes "\<forall>row \<in> set rows. length row = old_length" "hole_length < old_length"
    "hole_start + hole_length \<le> old_length"
  shows "cut_rows rows hole_start hole_length old_length
           = Inr (map (without_slice hole_start hole_length) rows)"
  using assms
  by (induction rows) (simp_all add: ril_cut_from_vector_ok)

lemma GAS_ril_address_delete_first:
  assumes find: "ril_find_agent (agents s) (address_peer (heap s a0)) 0 = Some k"
    and addrs: "agent_addresses (agents s ! k) = a0 # a1 # rest"
    and wfn: "length (agent_W (agents s ! k)) = agent_n (agents s ! k)"
    and wfm: "\<forall>row \<in> set (agent_W (agents s ! k)). length row = agent_m (agents s ! k)"
    and wfs: "length (s_old (agents s ! k)) = agent_m (agents s ! k)"
    and wfe: "length (agent_e (agents s ! k)) = agent_m (agents s ! k)"
    and m: "length (network_entries s) * RIL_FEATURES_NETWORK_COUNT + RIL_FEATURES_ADDRESS_COUNT c
              \<le> agent_m (agents s ! k)"
    and mpos: "RIL_FEATURES_ADDRESS_COUNT c < agent_m (agents s ! k)"
    and n: "RIL_ACTION_TYPE_NUM + 1 \<le> agent_n (agents s ! k)" "1 < agent_n (agents s ! k)"
  shows "\<exists>s2. GAS_ril_address_delete c s a0 session_only = Inr s2
     \<and> length (agents s2) = length (agents s)
     \<and> agent_addresses (agents s2 ! k) = a1 # rest
     \<and> agent_n (agents s2 ! k) = agent_n (agents s ! k) - 1
     \<and> agent_m (agents s2 ! k) = agent_m (agents s ! k) - RIL_FEATURES_ADDRESS_COUNT c
     \<and> agent_W (agents s2 ! k) =
         without_slice RIL_ACTION_TYPE_NUM 1
           (map (without_slice (length (network_entries s) * RIL_FEATURES_NETWORK_COUNT)
                   (RIL_FEATURES_ADDRESS_COUNT c))
              (agent_W (agents s ! k)))
     \<and> a_old (agents s2 ! k) =
         (if a_old (agents s ! k) > int RIL_ACTION_TYPE_NUM then a_old (agents s ! k) - 1
          else if a_old (agents s ! k) = int RIL_ACTION_TYPE_NUM then RIL_ACTION_INVALID
          else a_old (agents s ! k))
     \<and> s_old (agents s2 ! k) =
         without_slice (length (network_entries s) * RIL_FEATURES_NETWORK_COUNT)
           (RIL_FEATURES_ADDRESS_COUNT c) (s_old (agents s ! k))
     \<and> agent_e (agents s2 ! k) =
         without_slice (length (network_entries s) * RIL_FEATURES_NETWORK_COUNT)
           (RIL_FEATURES_ADDRESS_COUNT c) (agent_e (agents s ! k))"
proof -
  let ?ag = "agents s ! k"
  let ?hs = "length (network_entries s) * RIL_FEATURES_NETWORK_COUNT"
  let ?F = "RIL_FEATURES_ADDRESS_COUNT c"
  have k: "k < length (agents s)" using ril_find_agent_Some [OF find] by simp
  have ga: "ril_get_agent c s (address_peer (heap s a0)) False = (s, Some k)"
    using find by (simp add: ril_get_agent_def)
  have idx: "agent_address_get_index ?ag a0 = 0"
    using addrs by (simp add: agent_address_get_index_def)
  have get: "agent_address_get ?ag a0 = Some a0"
    using addrs by (simp add: agent_address_get_def)
  have rem: "remove1 a0 (agent_addresses ?ag) = a1 # rest"
    using addrs by simp
  have rows: "cut_rows (take (agent_n ?ag) (agent_W ?ag)) ?hs ?F (agent_m ?ag)
                = Inr (map (without_slice ?hs ?F) (agent_W ?ag))"
    using wfn wfm m mpos by (simp add: cut_rows_ok)
  have cutW: "ril_cut_from_vector (map (without_slice ?hs ?F) (agent_W ?ag))
                 RIL_ACTION_TYPE_NUM (Suc 0) (agent_n ?ag)
                = Inr (without_slice RIL_ACTION_TYPE_NUM 1
                         (map (without_slice ?hs ?F) (agent_W ?ag)))"
    using wfn n by (simp add: ril_cut_from_vector_ok)
  have cuts: "ril_cut_from_vector (s_old ?ag) ?hs ?F (agent_m ?ag)
                = Inr (without_slice ?hs ?F (s_old ?ag))"
    using wfs m mpos by (simp add: ril_cut_from_vector_ok)
  have cute: "ril_cut_from_vector (agent_e ?ag) ?hs ?F (agent_m ?ag)
                = Inr (without_slice ?hs ?F (agent_e ?ag))"
    using wfe m mpos by (simp add: ril_cut_from_vector_ok)
  let ?ag' = "?ag\<lparr>agent_addresses := a1 # rest,
        agent_W := without_slice RIL_ACTION_TYPE_NUM 1 (map (without_slice ?hs ?F) (agent_W ?ag)),
        a_old := (if a_old ?ag > int RIL_ACTION_TYPE_NUM then a_old ?ag - 1
                  else if a_old ?ag = int RIL_ACTION_TYPE_NUM then RIL_ACTION_INVALID
                  else a_old ?ag),
        s_old := without_slice ?hs ?F (s_old ?ag),
        agent_e := without_slice ?hs ?F (agent_e ?ag),
        agent_m := agent_m ?ag - ?F, agent_n := agent_n ?ag - 1\<rparr>"
  let ?s1 = "s\<lparr>agents := (agents s)[k := ?ag']\<rparr>"
  let ?s2 = "?s1\<lparr>network_entries :=
               add_bw_assigned (solver_information (heap ?s1 a0)) (- bw_in ?ag') (- bw_out ?ag')
                 (network_entries ?s1)\<rparr>"
  have step: "GAS_ril_address_delete c s a0 session_only =
     (if address_active (heap s a0)
      then (case envi_set_active_suggestion ?s2 k (Some a1)
                   (ucast (DEFAULT_BW_IN_OUT c)) (ucast (DEFAULT_BW_IN_OUT c)) False of
              Inl err \<Rightarrow> Inl err
            | Inr s3 \<Rightarrow>
                Inr (s3\<lparr>network_entries :=
                       add_bw_assigned (solver_information (heap s3 a1))
                         (- ucast (DEFAULT_BW_IN_OUT c)) (- ucast (DEFAULT_BW_IN_OUT c))
                         (network_entries s3)\<rparr>))
      else Inr ?s1)"
    using ga k
    by (simp add: GAS_ril_address_delete_def idx get rem rows cutW cuts cute Let_def
             cong: if_cong)
  show ?thesis
  proof (cases "address_active (heap s a0)")
    case False
    then have "GAS_ril_address_delete c s a0 session_only = Inr ?s1" using step by simp
    then show ?thesis using k by simp
  next
    case True
    have k2: "k < length (agents ?s2)" using k by simp
    from envi_set_active_suggestion_Some [OF k2, of a1 "ucast (DEFAULT_BW_IN_OUT c)"
           "ucast (DEFAULT_BW_IN_OUT c)" False]
    obtain s3 where
      r: "envi_set_active_suggestion ?s2 k (Some a1) (ucast (DEFAULT_BW_IN_OUT c))
            (ucast (DEFAULT_BW_IN_OUT c)) False = Inr s3"
      and l: "length (agents s3) = length (agents ?s2)"
      and a: "agents s3 ! k = (agents ?s2 ! k)\<lparr>bw_in := ucast (DEFAULT_BW_IN_OUT c),
                 bw_out := ucast (DEFAULT_BW_IN_OUT c), address_inuse := Some a1\<rparr>"
      by blast
    have "GAS_ril_address_delete c s a0 session_only =
            Inr (s3\<lparr>network_entries :=
                       add_bw_assigned (solver_information (heap s3 a1))
                         (- ucast (DEFAULT_BW_IN_OUT c)) (- ucast (DEFAULT_BW_IN_OUT c))
                         (network_entries s3)\<rparr>)"
      using step True r by simp
    then show ?thesis using l a k by simp
  qed
qed

lemma grown_W_nth:
  assumes "length W0 = n0" "\<forall>row \<in> set W0. length row = m0"
  shows "length (grown_W f W0 m0) = n0 + 1"
    and "\<forall>row \<in> set (grown_W f W0 m0). length row = m0 + f"
    and "\<forall>i < n0. grown_W f W0 m0 ! i = W0 ! i @ replicate f 0"
    and "grown_W f W0 m0 ! n0 = replicate (m0 + f) 0"
  using assms by (auto simp: grown_W_def nth_append)

lemma without_slice_grown_row:
  assumes "length row = h + f"
  shows "without_slice h f (row @ replicate f 0) = take h row @ replicate f (0::real)"
  using assms by (simp add: without_slice_def)

lemma without_slice_zero_row:
  "without_slice h f (replicate (h + f + f) (0::real)) = replicate (h + f) 0"
  by (simp add: without_slice_def replicate_add [symmetric] min_def)

lemma fold_update_const:
  "k \<le> length ev \<Longrightarrow> fold (\<lambda>i ev. ev[i := c]) [0..<k] ev = replicate k c @ drop k ev"
proof (induction k)
  case 0
  then show ?case by simp
next
  case (Suc k)
  then have "fold (\<lambda>i ev. ev[i := c]) [0..<Suc k] ev = (replicate k c @ drop k ev)[k := c]"
    by simp
  also have "\<dots> = replicate k c @ (drop k ev)[0 := c]"
    by (simp add: list_update_append)
  also have "(drop k ev)[0 := c] = c # drop (Suc k) ev"
    using Suc.prems by (simp add: Cons_nth_drop_Suc [symmetric])
  finally show ?case by (simp add: replicate_append_same)
qed

lemma fold_update_incr:
  "k \<le> length ev \<Longrightarrow>
   fold (\<lambda>i ev. ev[i := ev ! i + (1::real)]) [0..<k] ev = map (\<lambda>x. x + 1) (take k ev) @ drop k ev"
proof (induction k)
  case 0
  then show ?case by simp
next
  case (Suc k)
  let ?r = "map (\<lambda>x. x + 1) (take k ev) @ drop k ev"
  have "fold (\<lambda>i ev. ev[i := ev ! i + 1]) [0..<Suc k] ev = ?r[k := ?r ! k + 1]"
    using Suc by simp
  also have "?r ! k = ev ! k"
    using Suc.prems by (simp add: nth_append)
  also have "?r[k := ev ! k + 1] = map (\<lambda>x. x + 1) (take k ev) @ (drop k ev)[0 := ev ! k + 1]"
    using Suc.prems by (simp add: list_update_append)
  also have "(drop k ev)[0 := ev ! k + 1] = (ev ! k + 1) # drop (Suc k) ev"
    using Suc.prems by (simp add: Cons_nth_drop_Suc [symmetric])
  finally show ?case
    using Suc.prems by (simp add: take_Suc_conv_app_nth)
qed

text \<open>
  An address in a network whose outbound quota is below the minimum bandwidth is not
  added: only its \<^verbatim>\<open>solver_information\<close> is set.
\<close>

lemma GAS_ril_address_add_inactive_network:
  assumes "ril_get_network s t = Some j"
    and "bw_out_available (network_entries s ! j) < ucast (DEFAULT_BW_IN_OUT c)"
  shows "GAS_ril_address_add c s a1 t =
           Inr (s\<lparr>heap := (heap s)(a1 := (heap s a1)\<lparr>solver_information := j\<rparr>)\<rparr>)"
  using assms
  by (simp add: GAS_ril_address_add_def ril_network_is_active_def ril_get_network_def)

text \<open>
  The first address of a peer: \<^verbatim>\<open>ril_get_agent\<close> creates the agent, and the agent
  then has 10 actions and \<^verbatim>\<open>4 * N + (3 + Q)\<close> features, with vectors of these
  lengths.
\<close>

lemma ril_find_agent_append:
  "ril_find_agent xs p i = None \<Longrightarrow> agent_peer b = p \<Longrightarrow>
   ril_find_agent (xs @ [b]) p i = Some (i + length xs)"
  by (induction xs arbitrary: i) (auto split: if_splits)

lemma ril_find_network_types:
  "map net_type xs = map net_type ys \<Longrightarrow> ril_find_network xs t i = ril_find_network ys t i"
proof (induction xs arbitrary: ys i)
  case Nil
  then show ?case by simp
next
  case (Cons x xs)
  then obtain y ys' where ys: "ys = y # ys'" by (cases ys) auto
  then show ?case using Cons by auto
qed

lemma agent_init_fields:
  "agents (agent_init c s p) =
     agents s @ [\<lparr>agent_peer = p, agent_active = False, step_count = 0,
                   agent_W = replicate RIL_ACTION_TYPE_NUM
                         (replicate (length (network_entries s) * RIL_FEATURES_NETWORK_COUNT) 0),
                   agent_m = length (network_entries s) * RIL_FEATURES_NETWORK_COUNT,
                   agent_n = RIL_ACTION_TYPE_NUM,
                   s_old = concat (map (\<lambda>net. [real (unat (bw_in_assigned net)),
                                                 real (unat (bw_in_available net)),
                                                 real (unat (bw_out_assigned net)),
                                                 real (unat (bw_out_available net))])
                                    (network_entries s)),
                   a_old = RIL_ACTION_INVALID,
                   agent_e = replicate (length (network_entries s) * RIL_FEATURES_NETWORK_COUNT) 0,
                   address_inuse = None, agent_addresses = [], bw_in = 0, bw_out = 0\<rparr>]"
  "heap (agent_init c s p) = heap s"
  "network_entries (agent_init c s p) = network_entries s"
  by (simp_all add: agent_init_def envi_get_state_def agent_modify_eligibility_def
        fold_update_const Let_def)

lemma agent_init_heap:
  "agent_init c (s\<lparr>heap := h\<rparr>) p = (agent_init c s p)\<lparr>heap := h\<rparr>"
  by (simp add: agent_init_def envi_get_state_def Let_def)

lemma GAS_ril_address_add_fresh:
  assumes fresh: "ril_find_agent (agents s) (address_peer (heap s a1)) 0 = None"
    and net: "ril_get_network s t = Some j"
    and act: "\<not> bw_out_available (network_entries s ! j) < ucast (DEFAULT_BW_IN_OUT c)"
  shows "GAS_ril_address_add c s a1 t
           = GAS_ril_address_add c (agent_init c s (address_peer (heap s a1))) a1 t"
proof -
  let ?p = "address_peer (heap s a1)"
  let ?S = "agent_init c s ?p"
  let ?h = "(heap s)(a1 := (heap s a1)\<lparr>solver_information := j\<rparr>)"
  have netS: "ril_get_network ?S t = Some j"
    using net by (simp add: ril_get_network_def agent_init_fields)
  have actL: "ril_network_is_active c (s\<lparr>heap := ?h\<rparr>) t = Inr True"
    using net act by (simp add: ril_network_is_active_def ril_get_network_def)
  have actR: "ril_network_is_active c (?S\<lparr>heap := ?h\<rparr>) t = Inr True"
    using net act by (simp add: ril_network_is_active_def ril_get_network_def agent_init_fields)
  have pe: "address_peer (heap (s\<lparr>heap := ?h\<rparr>) a1) = ?p"
    "address_peer (heap (?S\<lparr>heap := ?h\<rparr>) a1) = ?p"
    by simp_all
  have L: "ril_get_agent c (s\<lparr>heap := ?h\<rparr>) ?p True
             = (?S\<lparr>heap := ?h\<rparr>, Some (length (agents s)))"
    using fresh by (simp add: ril_get_agent_def agent_init_heap)
  have pa: "agent_peer (last (agents ?S)) = ?p" by (simp add: agent_init_fields)
  have "ril_find_agent (agents ?S) ?p 0 = Some (length (agents s))"
    using ril_find_agent_append [OF fresh, of "last (agents ?S)"] pa
    by (simp add: agent_init_fields)
  then have R: "ril_get_agent c (?S\<lparr>heap := ?h\<rparr>) ?p True
                  = (?S\<lparr>heap := ?h\<rparr>, Some (length (agents s)))"
    by (simp add: ril_get_agent_def)
  show ?thesis
    by (simp only: GAS_ril_address_add_def Let_def agent_init_fields(2) net netS option.case
          actL actR sum.case bool.case pe L R prod.case)
qed

lemma GAS_ril_address_add_first:
  assumes fresh: "ril_find_agent (agents s) (address_peer (heap s a1)) 0 = None"
    and net: "ril_get_network s t = Some j"
    and act: "\<not> bw_out_available (network_entries s ! j) < ucast (DEFAULT_BW_IN_OUT c)"
  shows "\<exists>s1. GAS_ril_address_add c s a1 t = Inr s1
     \<and> ril_find_agent (agents s1) (address_peer (heap s a1)) 0 = Some (length (agents s))
     \<and> (\<forall>x. address_peer (heap s1 x) = address_peer (heap s x))
     \<and> agent_addresses (agents s1 ! length (agents s)) = [a1]
     \<and> agent_n (agents s1 ! length (agents s)) = 10
     \<and> agent_m (agents s1 ! length (agents s))
          = 4 * length (network_entries s1) + (3 + QualityPropertiesCount c)
     \<and> length (agent_W (agents s1 ! length (agents s))) = 10
     \<and> (\<forall>row \<in> set (agent_W (agents s1 ! length (agents s))).
            length row = agent_m (agents s1 ! length (agents s)))
     \<and> length (s_old (agents s1 ! length (agents s))) = agent_m (agents s1 ! length (agents s))
     \<and> length (agent_e (agents s1 ! length (agents s))) = agent_m (agents s1 ! length (agents s))
     \<and> map net_type (network_entries s1) = map net_type (network_entries s)
     \<and> map bw_out_available (network_entries s1) = map bw_out_available (network_entries s)"
proof -
  let ?p = "address_peer (heap s a1)"
  let ?S = "agent_init c s ?p"
  let ?k = "length (agents s)"
  let ?N = "length (network_entries s)"
  let ?F = "3 + QualityPropertiesCount c"
  let ?ag = "agents ?S ! ?k"
  have F: "RIL_FEATURES_ADDRESS_COUNT c = ?F" by (simp add: RIL_FEATURES_ADDRESS_COUNT_def)
  have ag: "agent_peer ?ag = ?p" "agent_addresses ?ag = []" "agent_n ?ag = 9"
    "agent_m ?ag = 4 * ?N" "agent_W ?ag = replicate 9 (replicate (4 * ?N) 0)"
    "length (s_old ?ag) = 4 * ?N" "length (agent_e ?ag) = 4 * ?N"
    by (simp_all add: agent_init_fields RIL_ACTION_TYPE_NUM_def RIL_FEATURES_NETWORK_COUNT_def
          length_concat comp_def sum_list_triv mult.commute)
  have findS: "ril_find_agent (agents ?S) (address_peer (heap ?S a1)) 0 = Some ?k"
    using ril_find_agent_append [OF fresh, of "last (agents ?S)"]
    by (simp add: agent_init_fields)
  have netS: "ril_get_network ?S t = Some j"
    using net by (simp add: ril_get_network_def agent_init_fields)
  have actS: "\<not> bw_out_available (network_entries ?S ! j) < ucast (DEFAULT_BW_IN_OUT c)"
    using act by (simp add: agent_init_fields)
  from GAS_ril_address_add_grows [OF findS netS actS] obtain s1 where
    add: "GAS_ril_address_add c ?S a1 t = Inr s1"
    and la: "length (agents s1) = length (agents ?S)"
    and oth: "\<forall>i. i \<noteq> ?k \<longrightarrow> agents s1 ! i = agents ?S ! i"
    and ln: "length (network_entries s1) = length (network_entries ?S)"
    and hp: "\<forall>x. address_peer (heap s1 x) = address_peer (heap ?S x)"
    and ap: "agent_peer (agents s1 ! ?k) = agent_peer ?ag"
    and aa: "agent_addresses (agents s1 ! ?k) = agent_addresses ?ag @ [a1]"
    and an: "agent_n (agents s1 ! ?k) = agent_n ?ag + 1"
    and am: "agent_m (agents s1 ! ?k) = agent_m ?ag + RIL_FEATURES_ADDRESS_COUNT c"
    and aw: "agent_W (agents s1 ! ?k) =
         map (\<lambda>i. if i < agent_n ?ag
                   then GNUNET_array_grow 0
                          (GNUNET_array_grow [] (agent_W ?ag) (agent_n ?ag) (agent_n ?ag + 1) ! i)
                          (agent_m ?ag) (agent_m ?ag + RIL_FEATURES_ADDRESS_COUNT c)
                   else GNUNET_array_grow 0
                          (GNUNET_array_grow [] (agent_W ?ag) (agent_n ?ag) (agent_n ?ag + 1) ! i)
                          0 (agent_m ?ag + RIL_FEATURES_ADDRESS_COUNT c))
           [0..<agent_n ?ag + 1]"
    and as: "s_old (agents s1 ! ?k) =
         GNUNET_array_grow 0 (s_old ?ag) (agent_m ?ag) (agent_m ?ag + RIL_FEATURES_ADDRESS_COUNT c)"
    and ae: "agent_e (agents s1 ! ?k) =
         GNUNET_array_grow 0 (agent_e ?ag) (agent_m ?ag) (agent_m ?ag + RIL_FEATURES_ADDRESS_COUNT c)"
    and nt: "map net_type (network_entries s1) = map net_type (network_entries ?S)"
    and nb: "map bw_out_available (network_entries s1) = map bw_out_available (network_entries ?S)"
    by blast
  have r1: "GAS_ril_address_add c s a1 t = Inr s1"
    using GAS_ril_address_add_fresh [OF fresh net act] add by simp
  have kS: "?k < length (agents ?S)" by (simp add: agent_init_fields)
  have "agents s1 = (agents ?S)[?k := agents s1 ! ?k]"
    using la oth kS by (auto intro!: nth_equalityI simp: nth_list_update)
  moreover have "ril_find_agent (agents ?S) ?p 0 = Some ?k"
    using findS by (simp add: agent_init_fields)
  ultimately have r2: "ril_find_agent (agents s1) ?p 0 = Some ?k"
    using ril_find_agent_update [of "agents ?S" ?p 0 ?k "agents s1 ! ?k"] ap ag(1) by simp
  have r3: "\<forall>x. address_peer (heap s1 x) = address_peer (heap s x)"
    using hp by (simp add: agent_init_fields)
  have wfn: "length (agent_W ?ag) = agent_n ?ag" using ag by simp
  have wfm: "\<forall>row \<in> set (agent_W ?ag). length row = agent_m ?ag" using ag by simp
  have W1: "agent_W (agents s1 ! ?k) = grown_W ?F (agent_W ?ag) (agent_m ?ag)"
    unfolding aw F by (rule grow_rows [OF wfn wfm])
  note g = grown_W_nth [OF wfn wfm, of ?F]
  have r4: "length (agent_W (agents s1 ! ?k)) = 10" using g(1) W1 ag(3) by simp
  have lN: "length (network_entries s1) = ?N" using ln by (simp add: agent_init_fields)
  have r5: "agent_m (agents s1 ! ?k) = 4 * length (network_entries s1) + ?F"
    using am ag(4) F lN by simp
  have r6: "\<forall>row \<in> set (agent_W (agents s1 ! ?k)). length row = agent_m (agents s1 ! ?k)"
    using g(2) W1 am F by simp
  have r7: "length (s_old (agents s1 ! ?k)) = agent_m (agents s1 ! ?k)"
    "length (agent_e (agents s1 ! ?k)) = agent_m (agents s1 ! ?k)"
    using as ae am ag by (simp_all add: GNUNET_array_grow_def)
  have r8: "map net_type (network_entries s1) = map net_type (network_entries s)"
    "map bw_out_available (network_entries s1) = map bw_out_available (network_entries s)"
    using nt nb by (simp_all add: agent_init_fields)
  show ?thesis
    using r1 r2 r3 r4 r5 r6 r7 r8 aa an ag(2,3) by simp
qed

text \<open>
  C4, amended. An agent with one address has 10 actions and \<^verbatim>\<open>4 * N + (3 + Q)\<close>
  features. Adding a second address of the peer in a network that the solver knows
  and whose outbound quota is at least the minimum bandwidth gives the weight matrix
  one more row, of zeros, and appends \<^verbatim>\<open>3 + Q\<close> zero columns to each old row, whose
  weights stay as they were; in a network whose outbound quota is below the minimum
  bandwidth the address is not added and the agent is left as it was. Deleting the
  first address after the second was added, whatever last action is stored by then,
  removes row 9, the action of switching to that address, and the \<^verbatim>\<open>3 + Q\<close> columns
  of that address from every row; a stored last action above 9 is decremented, and a
  stored last action 9 becomes invalid.
\<close>

theorem rl_resize_preserves_weights:
  assumes find: "ril_find_agent (agents s) p 0 = Some k"
    and p0: "address_peer (heap s a0) = p" and p1: "address_peer (heap s a1) = p"
    and one: "agent_addresses (agents s ! k) = [a0]"
    and m: "agent_m (agents s ! k)
              = 4 * length (network_entries s) + (3 + QualityPropertiesCount c)"
    and n: "agent_n (agents s ! k) = 10"
    and wfn: "length (agent_W (agents s ! k)) = 10"
    and wfm: "\<forall>row \<in> set (agent_W (agents s ! k)). length row = agent_m (agents s ! k)"
    and wfs: "length (s_old (agents s ! k)) = agent_m (agents s ! k)"
    and wfe: "length (agent_e (agents s ! k)) = agent_m (agents s ! k)"
    and net: "ril_get_network s t = Some j"
  shows "if bw_out_available (network_entries s ! j) < ucast (DEFAULT_BW_IN_OUT c)
         then GAS_ril_address_add c s a1 t
                = Inr (s\<lparr>heap := (heap s)(a1 := (heap s a1)\<lparr>solver_information := j\<rparr>)\<rparr>)
         else (\<exists>s1. GAS_ril_address_add c s a1 t = Inr s1
               \<and> agent_n (agents s1 ! k) = 11
               \<and> agent_m (agents s1 ! k) = agent_m (agents s ! k) + (3 + QualityPropertiesCount c)
               \<and> length (agent_W (agents s1 ! k)) = 11
               \<and> (\<forall>i < 10. agent_W (agents s1 ! k) ! i
                      = agent_W (agents s ! k) ! i @ replicate (3 + QualityPropertiesCount c) 0)
               \<and> agent_W (agents s1 ! k) ! 10
                    = replicate (agent_m (agents s ! k) + (3 + QualityPropertiesCount c)) 0
               \<and> a_old (agents s1 ! k) = a_old (agents s ! k)
               \<and> agent_addresses (agents s1 ! k) = [a0, a1]
               \<and> (\<forall>a. \<exists>s2. GAS_ril_address_delete c (with_last_action s1 k a) a0 session_only = Inr s2
                      \<and> agent_n (agents s2 ! k) = 10
                      \<and> agent_m (agents s2 ! k) = agent_m (agents s ! k)
                      \<and> length (agent_W (agents s2 ! k)) = 10
                      \<and> (\<forall>i < 9. agent_W (agents s2 ! k) ! i
                             = take (4 * length (network_entries s)) (agent_W (agents s ! k) ! i)
                                 @ replicate (3 + QualityPropertiesCount c) 0)
                      \<and> agent_W (agents s2 ! k) ! 9 = replicate (agent_m (agents s ! k)) 0
                      \<and> agent_addresses (agents s2 ! k) = [a1]
                      \<and> a_old (agents s2 ! k) =
                          (if a > 9 then a - 1 else if a = 9 then RIL_ACTION_INVALID else a)))"
proof (cases "bw_out_available (network_entries s ! j) < ucast (DEFAULT_BW_IN_OUT c)")
  case True
  then show ?thesis using GAS_ril_address_add_inactive_network [OF net] by simp
next
  case act: False
  let ?F = "3 + QualityPropertiesCount c"
  let ?h = "4 * length (network_entries s)"
  let ?ag = "agents s ! k"
  have F: "RIL_FEATURES_ADDRESS_COUNT c = ?F" by (simp add: RIL_FEATURES_ADDRESS_COUNT_def)
  have k: "k < length (agents s)" using ril_find_agent_Some [OF find] by simp
  from GAS_ril_address_add_grows [OF find [folded p1] net act] obtain s1 where
    add: "GAS_ril_address_add c s a1 t = Inr s1"
    and la: "length (agents s1) = length (agents s)"
    and oth: "\<forall>i. i \<noteq> k \<longrightarrow> agents s1 ! i = agents s ! i"
    and ln: "length (network_entries s1) = length (network_entries s)"
    and hp: "\<forall>x. address_peer (heap s1 x) = address_peer (heap s x)"
    and ap: "agent_peer (agents s1 ! k) = agent_peer (agents s ! k)"
    and aa: "agent_addresses (agents s1 ! k) = agent_addresses ?ag @ [a1]"
    and an: "agent_n (agents s1 ! k) = agent_n ?ag + 1"
    and am: "agent_m (agents s1 ! k) = agent_m ?ag + RIL_FEATURES_ADDRESS_COUNT c"
    and ao: "a_old (agents s1 ! k) = a_old ?ag"
    and aw: "agent_W (agents s1 ! k) =
         map (\<lambda>i. if i < agent_n ?ag
                   then GNUNET_array_grow 0
                          (GNUNET_array_grow [] (agent_W ?ag) (agent_n ?ag) (agent_n ?ag + 1) ! i)
                          (agent_m ?ag) (agent_m ?ag + RIL_FEATURES_ADDRESS_COUNT c)
                   else GNUNET_array_grow 0
                          (GNUNET_array_grow [] (agent_W ?ag) (agent_n ?ag) (agent_n ?ag + 1) ! i)
                          0 (agent_m ?ag + RIL_FEATURES_ADDRESS_COUNT c))
           [0..<agent_n ?ag + 1]"
    and as: "s_old (agents s1 ! k) =
         GNUNET_array_grow 0 (s_old ?ag) (agent_m ?ag) (agent_m ?ag + RIL_FEATURES_ADDRESS_COUNT c)"
    and ae: "agent_e (agents s1 ! k) =
         GNUNET_array_grow 0 (agent_e ?ag) (agent_m ?ag) (agent_m ?ag + RIL_FEATURES_ADDRESS_COUNT c)"
    by blast
  have wfn': "length (agent_W ?ag) = agent_n ?ag" using wfn n by simp
  have W1: "agent_W (agents s1 ! k) = grown_W ?F (agent_W ?ag) (agent_m ?ag)"
    unfolding aw F by (rule grow_rows [OF wfn' wfm])
  note g = grown_W_nth [OF wfn' wfm, of ?F]
  have g1: "length (agent_W (agents s1 ! k)) = 11" using g(1) n W1 by simp
  have g2: "\<forall>row \<in> set (agent_W (agents s1 ! k)). length row = agent_m ?ag + ?F"
    using g(2) W1 by simp
  have g3: "\<forall>i < 10. agent_W (agents s1 ! k) ! i = agent_W ?ag ! i @ replicate ?F 0"
    using g(3) n W1 by simp
  have g4: "agent_W (agents s1 ! k) ! 10 = replicate (agent_m ?ag + ?F) 0"
    using g(4) n W1 by simp
  have del: "\<exists>s2. GAS_ril_address_delete c (with_last_action s1 k a) a0 session_only = Inr s2
            \<and> agent_n (agents s2 ! k) = 10
            \<and> agent_m (agents s2 ! k) = agent_m ?ag
            \<and> length (agent_W (agents s2 ! k)) = 10
            \<and> (\<forall>i < 9. agent_W (agents s2 ! k) ! i
                   = take ?h (agent_W ?ag ! i) @ replicate ?F 0)
            \<and> agent_W (agents s2 ! k) ! 9 = replicate (agent_m ?ag) 0
            \<and> agent_addresses (agents s2 ! k) = [a1]
            \<and> a_old (agents s2 ! k) =
                (if a > 9 then a - 1 else if a = 9 then RIL_ACTION_INVALID else a)" for a
  proof -
    let ?s1 = "with_last_action s1 k a"
    let ?ag1 = "agents ?s1 ! k"
    let ?W1 = "agent_W (agents s1 ! k)"
    have k1: "k < length (agents s1)" using k la by simp
    have ag1: "?ag1 = (agents s1 ! k)\<lparr>a_old := a\<rparr>"
      using k1 by (simp add: with_last_action_def)
    have ps: "agent_peer ?ag = p" using ril_find_agent_Some [OF find] by simp
    have "agents ?s1 = (agents s)[k := ?ag1]"
      using la oth k by (auto intro!: nth_equalityI simp: with_last_action_def nth_list_update)
    moreover have "agent_peer ?ag1 = p" using ag1 ap ps by simp
    ultimately have f1: "ril_find_agent (agents ?s1) (address_peer (heap ?s1 a0)) 0 = Some k"
      using ril_find_agent_update [OF find, of ?ag1] hp p0
      by (simp add: with_last_action_def)
    have addrs1: "agent_addresses ?ag1 = a0 # a1 # []" using ag1 aa one by simp
    have wfn1: "length (agent_W ?ag1) = agent_n ?ag1" using ag1 g1 an n by simp
    have wfm1: "\<forall>row \<in> set (agent_W ?ag1). length row = agent_m ?ag1"
      using ag1 g2 am F by simp
    have wfs1: "length (s_old ?ag1) = agent_m ?ag1"
      using ag1 as am wfs by (simp add: GNUNET_array_grow_def)
    have wfe1: "length (agent_e ?ag1) = agent_m ?ag1"
      using ag1 ae am wfe by (simp add: GNUNET_array_grow_def)
    have m1: "length (network_entries ?s1) * RIL_FEATURES_NETWORK_COUNT
                + RIL_FEATURES_ADDRESS_COUNT c \<le> agent_m ?ag1"
      using ag1 am m ln F by (simp add: with_last_action_def RIL_FEATURES_NETWORK_COUNT_def)
    have mpos1: "RIL_FEATURES_ADDRESS_COUNT c < agent_m ?ag1"
      using ag1 am m F by simp
    have n1: "RIL_ACTION_TYPE_NUM + 1 \<le> agent_n ?ag1" "1 < agent_n ?ag1"
      using ag1 an n by (simp_all add: RIL_ACTION_TYPE_NUM_def)
    from GAS_ril_address_delete_first [OF f1 addrs1 wfn1 wfm1 wfs1 wfe1 m1 mpos1 n1,
           of session_only]
    obtain s2 where
      d: "GAS_ril_address_delete c ?s1 a0 session_only = Inr s2"
      and da: "agent_addresses (agents s2 ! k) = [a1]"
      and dn: "agent_n (agents s2 ! k) = agent_n ?ag1 - 1"
      and dm: "agent_m (agents s2 ! k) = agent_m ?ag1 - RIL_FEATURES_ADDRESS_COUNT c"
      and dw: "agent_W (agents s2 ! k) =
         without_slice RIL_ACTION_TYPE_NUM 1
           (map (without_slice (length (network_entries ?s1) * RIL_FEATURES_NETWORK_COUNT)
                   (RIL_FEATURES_ADDRESS_COUNT c)) (agent_W ?ag1))"
      and dol: "a_old (agents s2 ! k) =
         (if a_old ?ag1 > int RIL_ACTION_TYPE_NUM then a_old ?ag1 - 1
          else if a_old ?ag1 = int RIL_ACTION_TYPE_NUM then RIL_ACTION_INVALID
          else a_old ?ag1)"
      by blast
    have hs: "length (network_entries ?s1) * RIL_FEATURES_NETWORK_COUNT = ?h"
      using ln by (simp add: with_last_action_def RIL_FEATURES_NETWORK_COUNT_def)
    have W2: "agent_W (agents s2 ! k) =
                take 9 (map (without_slice ?h ?F) ?W1) @ drop 10 (map (without_slice ?h ?F) ?W1)"
      using dw ag1 unfolding hs F
      by (simp add: without_slice_def RIL_ACTION_TYPE_NUM_def)
    have rowlen: "length (agent_W ?ag ! i) = ?h + ?F" if "i < 10" for i
      using wfm wfn m that by simp
    have r1: "length (agent_W (agents s2 ! k)) = 10"
      using W2 g1 by simp
    have r2: "\<forall>i < 9. agent_W (agents s2 ! k) ! i = take ?h (agent_W ?ag ! i) @ replicate ?F 0"
    proof (intro allI impI)
      fix i :: nat assume i: "i < 9"
      then have "agent_W (agents s2 ! k) ! i = without_slice ?h ?F (?W1 ! i)"
        using W2 g1 by (simp add: nth_append)
      also have "\<dots> = without_slice ?h ?F (agent_W ?ag ! i @ replicate ?F 0)"
        using g3 i by simp
      also have "\<dots> = take ?h (agent_W ?ag ! i) @ replicate ?F 0"
        using rowlen [of i] i by (intro without_slice_grown_row) simp
      finally show "agent_W (agents s2 ! k) ! i = take ?h (agent_W ?ag ! i) @ replicate ?F 0" .
    qed
    have "agent_W (agents s2 ! k) ! 9 = without_slice ?h ?F (?W1 ! 10)"
      using W2 g1 by (simp add: nth_append)
    also have "\<dots> = without_slice ?h ?F (replicate (?h + ?F + ?F) 0)"
      using g4 m by simp
    also have "\<dots> = replicate (agent_m ?ag) 0"
      unfolding without_slice_zero_row using m by simp
    finally have r3: "agent_W (agents s2 ! k) ! 9 = replicate (agent_m ?ag) 0" .
    have r4: "a_old (agents s2 ! k) =
                (if a > 9 then a - 1 else if a = 9 then RIL_ACTION_INVALID else a)"
      using dol ag1 by (simp add: RIL_ACTION_TYPE_NUM_def)
    show ?thesis
      using d da dn dm ag1 an am n F r1 r2 r3 r4 by simp
  qed
  have "\<exists>s1. GAS_ril_address_add c s a1 t = Inr s1
     \<and> agent_n (agents s1 ! k) = 11
     \<and> agent_m (agents s1 ! k) = agent_m (agents s ! k) + (3 + QualityPropertiesCount c)
     \<and> length (agent_W (agents s1 ! k)) = 11
     \<and> (\<forall>i < 10. agent_W (agents s1 ! k) ! i
            = agent_W (agents s ! k) ! i @ replicate (3 + QualityPropertiesCount c) 0)
     \<and> agent_W (agents s1 ! k) ! 10
          = replicate (agent_m (agents s ! k) + (3 + QualityPropertiesCount c)) 0
     \<and> a_old (agents s1 ! k) = a_old (agents s ! k)
     \<and> agent_addresses (agents s1 ! k) = [a0, a1]
     \<and> (\<forall>a. \<exists>s2. GAS_ril_address_delete c (with_last_action s1 k a) a0 session_only = Inr s2
            \<and> agent_n (agents s2 ! k) = 10
            \<and> agent_m (agents s2 ! k) = agent_m (agents s ! k)
            \<and> length (agent_W (agents s2 ! k)) = 10
            \<and> (\<forall>i < 9. agent_W (agents s2 ! k) ! i
                   = take (4 * length (network_entries s)) (agent_W (agents s ! k) ! i)
                       @ replicate (3 + QualityPropertiesCount c) 0)
            \<and> agent_W (agents s2 ! k) ! 9 = replicate (agent_m (agents s ! k)) 0
            \<and> agent_addresses (agents s2 ! k) = [a1]
            \<and> a_old (agents s2 ! k) =
                (if a > 9 then a - 1 else if a = 9 then RIL_ACTION_INVALID else a))"
    using add an am n F g1 g3 g4 ao aa one del by simp
  then show ?thesis using act by simp
qed

lemma low_quota_first_address:
  "\<exists>s1. low_quota_scenario = Inr s1
     \<and> agent_peer (agents s1 ! 0) = 1
     \<and> address_peer (heap s1 11) = 1
     \<and> agent_addresses (agents s1 ! 0) = [10]
     \<and> agent_n (agents s1 ! 0) = 10
     \<and> agent_m (agents s1 ! 0) = 13
     \<and> length (agent_W (agents s1 ! 0)) = 10
     \<and> ril_get_network s1 GNUNET_ATS_NET_LAN = Some 1
     \<and> bw_out_available (network_entries s1 ! 1) = 500"
proof -
  let ?H = low_quota_handle
  have H: "agents ?H = []" "length (network_entries ?H) = 2"
    "map net_type (network_entries ?H) = [GNUNET_ATS_NET_WAN, GNUNET_ATS_NET_LAN]"
    "map bw_out_available (network_entries ?H) = [100000, 500]"
    by (simp_all add: low_quota_handle_def libgnunet_plugin_ats_ril_init_def)
  have fresh: "ril_find_agent (agents ?H) (address_peer (heap ?H 10)) 0 = None"
    by (simp add: H)
  have net: "ril_get_network ?H GNUNET_ATS_NET_WAN = Some 0"
    by (simp add: low_quota_handle_def libgnunet_plugin_ats_ril_init_def ril_get_network_def)
  have act: "\<not> bw_out_available (network_entries ?H ! 0) < ucast (DEFAULT_BW_IN_OUT example_constants)"
    by (simp add: low_quota_handle_def libgnunet_plugin_ats_ril_init_def example_constants_def)
  from GAS_ril_address_add_first [OF fresh net act] obtain s1 where
    add: "GAS_ril_address_add example_constants ?H 10 GNUNET_ATS_NET_WAN = Inr s1"
    and fa: "ril_find_agent (agents s1) (address_peer (heap ?H 10)) 0 = Some (length (agents ?H))"
    and hp: "\<forall>x. address_peer (heap s1 x) = address_peer (heap ?H x)"
    and aa: "agent_addresses (agents s1 ! length (agents ?H)) = [10]"
    and an: "agent_n (agents s1 ! length (agents ?H)) = 10"
    and am: "agent_m (agents s1 ! length (agents ?H))
          = 4 * length (network_entries s1) + (3 + QualityPropertiesCount example_constants)"
    and aw: "length (agent_W (agents s1 ! length (agents ?H))) = 10"
    and nt: "map net_type (network_entries s1) = map net_type (network_entries ?H)"
    and nb: "map bw_out_available (network_entries s1) = map bw_out_available (network_entries ?H)"
    by blast
  have l: "length (network_entries s1) = 2"
    using arg_cong [OF nt, of length] H(2) by simp
  have "ril_find_network (network_entries s1) GNUNET_ATS_NET_LAN 0
          = ril_find_network (network_entries ?H) GNUNET_ATS_NET_LAN 0"
    by (rule ril_find_network_types [OF nt])
  then have lan: "ril_get_network s1 GNUNET_ATS_NET_LAN = Some 1"
    by (simp add: ril_get_network_def low_quota_handle_def libgnunet_plugin_ats_ril_init_def)
  have "map bw_out_available (network_entries s1) ! 1 = 500" using nb H(4) by simp
  then have q: "bw_out_available (network_entries s1 ! 1) = 500" using l by simp
  have m: "agent_m (agents s1 ! 0) = 13"
    using am l H(1) by (simp add: example_constants_def)
  have hp0: "address_peer (heap ?H x) = 1" for x
    by (simp add: low_quota_handle_def libgnunet_plugin_ats_ril_init_def)
  have pe: "agent_peer (agents s1 ! 0) = 1"
    using ril_find_agent_Some [OF fa] H(1) hp0 by simp
  have pa: "address_peer (heap s1 11) = 1" using hp hp0 by simp
  show ?thesis
    using add aa an aw m lan q H(1) pe pa by (simp add: low_quota_scenario_def)
qed

text \<open>
  With a LAN quota of 500 and a minimum bandwidth of 1024, the agent of peer 1 has
  one address, in the WAN network, 10 actions and 13 features. Adding a second address
  of the peer, in the LAN network, returns and leaves the agent as it was: still one
  address, 10 actions and a weight matrix of 10 rows.
\<close>

theorem rl_resize_low_quota_counterexample:
  "\<not> isl low_quota_scenario
   \<and> agent_peer (agents (projr low_quota_scenario) ! 0) = 1
   \<and> address_peer (heap (projr low_quota_scenario) 11) = 1
   \<and> agent_addresses (agents (projr low_quota_scenario) ! 0) = [10]
   \<and> agent_n (agents (projr low_quota_scenario) ! 0) = 10
   \<and> agent_m (agents (projr low_quota_scenario) ! 0) = 4 * 2 + (3 + 2)
   \<and> length (agent_W (agents (projr low_quota_scenario) ! 0)) = 10
   \<and> \<not> isl low_quota_second_address
   \<and> agents (projr low_quota_second_address) = agents (projr low_quota_scenario)
   \<and> agent_addresses (agents (projr low_quota_second_address) ! 0) = [10]
   \<and> agent_n (agents (projr low_quota_second_address) ! 0) = 10
   \<and> length (agent_W (agents (projr low_quota_second_address) ! 0)) = 10"
proof -
  from low_quota_first_address obtain s1 where
    first: "low_quota_scenario = Inr s1"
    and pe: "agent_peer (agents s1 ! 0) = 1" "address_peer (heap s1 11) = 1"
    and aa: "agent_addresses (agents s1 ! 0) = [10]"
    and an: "agent_n (agents s1 ! 0) = 10"
    and am: "agent_m (agents s1 ! 0) = 13"
    and aw: "length (agent_W (agents s1 ! 0)) = 10"
    and lan: "ril_get_network s1 GNUNET_ATS_NET_LAN = Some 1"
    and q: "bw_out_available (network_entries s1 ! 1) = 500"
    by blast
  have low: "bw_out_available (network_entries s1 ! 1) < ucast (DEFAULT_BW_IN_OUT example_constants)"
    using q by (simp add: example_constants_def)
  have second: "low_quota_second_address =
      Inr (s1\<lparr>heap := (heap s1)(11 := (heap s1 11)\<lparr>solver_information := 1\<rparr>)\<rparr>)"
    unfolding low_quota_second_address_def first
    using GAS_ril_address_add_inactive_network [OF lan low, of 11] by simp
  show ?thesis
    unfolding first second using pe aa an am aw by simp
qed

lemma eligibility_set_then_accumulate:
  assumes "length (agent_e agent) = agent_m agent"
  shows "agent_e (agent_modify_eligibility par RIL_E_ACCUMULATE
                    (agent_modify_eligibility par RIL_E_SET agent))
           = replicate (agent_m agent) (gamma par * lambda par + 1)"
  using assms
  by (simp add: agent_modify_eligibility_def fold_update_const fold_update_incr)

text \<open>
  Whatever the trace was, a SARSA step that returns leaves every component of the
  trace at \<^verbatim>\<open>gamma * lambda + 1\<close>.
\<close>

lemma agent_update_weights_trace [simp]:
  "agent_e (agent_update_weights par agent reward s_next a_prime) = agent_e agent"
  "agent_m (agent_update_weights par agent reward s_next a_prime) = agent_m agent"
  by (simp_all add: agent_update_weights_def Let_def)

lemma agent_modify_eligibility_m [simp]:
  "agent_m (agent_modify_eligibility par modification agent) = agent_m agent"
  by (simp add: agent_modify_eligibility_def)

lemma eligibility_set_length:
  "length (agent_e agent) = agent_m agent \<Longrightarrow>
   agent_e (agent_modify_eligibility par RIL_E_SET agent)
     = replicate (agent_m agent) (gamma par * lambda par)"
  by (simp add: agent_modify_eligibility_def fold_update_const)

lemma eligibility_accumulate_replicate:
  "agent_e agent = replicate (agent_m agent) x \<Longrightarrow>
   agent_e (agent_modify_eligibility par RIL_E_ACCUMULATE agent)
     = replicate (agent_m agent) (x + 1)"
  by (simp add: agent_modify_eligibility_def fold_update_incr)

lemma suggestion_keeps_trace:
  assumes "k < length (agents s)"
    and "envi_set_active_suggestion s k (Some a) bi bo silent = Inr s'"
  shows "agent_e (agents s' ! k) = agent_e (agents s ! k) \<and> length (agents s') = length (agents s)"
  using envi_set_active_suggestion_Some [OF assms(1), of a bi bo silent] assms(2) by auto

lemma envi_do_action_keeps_trace:
  assumes k: "k < length (agents s)" and a: "address_inuse (agents s ! k) = Some a"
    and r: "envi_do_action c s k action = Inr s'"
  shows "agent_e (agents s' ! k) = agent_e (agents s ! k) \<and> length (agents s') = length (agents s)"
proof -
  have "s' = s \<or> (\<exists>b bi bo. envi_set_active_suggestion s k (Some b) bi bo False = Inr s')"
    using r a
    by (auto simp: envi_do_action_def envi_action_bw_double_def envi_action_bw_halven_def
          envi_action_bw_inc_def envi_action_bw_dec_def envi_action_address_switch_def Let_def
          split: if_splits)
  then show ?thesis using suggestion_keeps_trace [OF k] by auto
qed

lemma sarsa_step_trace:
  assumes k: "k < length (agents s)"
    and algo: "algorithm (parameters s) = RIL_ALGO_SARSA"
    and len: "length (agent_e (agents s ! k)) = agent_m (agents s ! k)"
    and guard: "agent_active (agents s ! k)" "address_inuse (agents s ! k) = Some a"
    and r: "ril_periodic_step_agent c s k reward explore random_action = Inr s'"
  shows "agent_e (agents s' ! k)
           = replicate (agent_m (agents s ! k)) (gamma (parameters s) * lambda (parameters s) + 1)"
proof -
  let ?par = "parameters s"
  let ?ag = "agents s ! k"
  let ?ag1 = "agent_modify_eligibility ?par RIL_E_SET ?ag"
  let ?sn = "envi_get_state c s ?ag"
  have st: "agent_step c s k reward explore random_action = Inr s'"
    using r guard by (simp add: ril_periodic_step_agent_def)
  obtain a_next where
    act: "(if explore then Inr random_action else agent_get_action_best ?ag1 ?sn) = Inr a_next"
    using st algo
    by (cases "if explore then Inr random_action else agent_get_action_best ?ag1 ?sn")
       (simp_all add: agent_step_def Let_def)
  let ?ag2 = "if RIL_ACTION_INVALID \<noteq> a_old ?ag1
              then agent_update_weights ?par ?ag1 reward ?sn a_next else ?ag1"
  let ?ag3 = "agent_modify_eligibility ?par RIL_E_ACCUMULATE ?ag2"
  let ?s3 = "s\<lparr>agents := (agents s)[k := ?ag3]\<rparr>"
  have e2: "agent_e ?ag2 = replicate (agent_m ?ag2) (gamma ?par * lambda ?par)"
    using eligibility_set_length [OF len, of ?par] by simp
  have m2: "agent_m ?ag2 = agent_m ?ag" by simp
  have e3: "agent_e ?ag3 = replicate (agent_m ?ag) (gamma ?par * lambda ?par + 1)"
    using eligibility_accumulate_replicate [OF e2, of ?par] m2 by simp
  obtain s4 where
    doit: "envi_do_action c ?s3 k a_next = Inr s4"
    and s': "s' = s4\<lparr>agents := (agents s4)
                           [k := (agents s4 ! k)
                              \<lparr>s_old := ?sn, a_old := a_next,
                               step_count := step_count (agents s4 ! k) + 1\<rparr>]\<rparr>"
    using st algo act
    by (cases "envi_do_action c ?s3 k a_next")
       (simp_all add: agent_step_def Let_def split: if_splits)
  have k3: "k < length (agents ?s3)" using k by simp
  have in3: "address_inuse (agents ?s3 ! k) = Some a"
    using k guard(2) by (simp add: agent_modify_eligibility_def agent_update_weights_def Let_def)
  from envi_do_action_keeps_trace [OF k3 in3 doit]
  have "agent_e (agents s4 ! k) = agent_e ?ag3" and "length (agents s4) = length (agents s)"
    using k by simp_all
  then show ?thesis using s' e3 k by simp
qed

text \<open>
  C6. \<^verbatim>\<open>RIL_E_SET\<close> overwrites the trace: after the first SARSA step of a new agent,
  with \<^verbatim>\<open>gamma = lambda = 1/2\<close>, every component of the eligibility trace is
  \<^verbatim>\<open>1/4 + 1\<close>, where a decay of the zero trace followed by the accumulation gives 1.
\<close>

theorem sarsa_step_sets_trace:
  "\<not> isl (ril_periodic_step_agent example_constants (example_handle RIL_ALGO_SARSA) 0 1 True 0)
   \<and> agent_e (agents (projr (ril_periodic_step_agent example_constants
                               (example_handle RIL_ALGO_SARSA) 0 1 True 0)) ! 0)
       = replicate 9 (5 / 4)
   \<and> map (\<lambda>x. gamma (parameters (example_handle RIL_ALGO_SARSA))
                 * lambda (parameters (example_handle RIL_ALGO_SARSA)) * x + 1)
         (agent_e (agents (example_handle RIL_ALGO_SARSA) ! 0))
       = [1, 1, 1, 1, 1, 1, 1, 1, 1]"
  by (simp add: ril_periodic_step_agent_def agent_step_def agent_modify_eligibility_def
        envi_do_action_def envi_get_state_def example_handle_def example_constants_def
        RIL_ACTION_defs Let_def fold_update_const fold_update_incr)

lemma envi_set_active_suggestion_total_None:
  assumes "k < length (agents s)"
  shows "\<exists>s1. envi_set_active_suggestion s k None bi bo silent = Inr s1
     \<and> length (bandwidth_changed s1) = length (bandwidth_changed s)
         + (if suggestion_changes (agents s ! k) None bi bo \<and> agent_active (agents s ! k)
               \<and> \<not> silent then 1 else 0)"
  using assms
  by (auto simp: envi_set_active_suggestion_def suggestion_changes_def Let_def
           split: option.splits)

lemma envi_set_active_suggestion_total_Some:
  assumes "k < length (agents s)"
  shows "\<exists>s1. envi_set_active_suggestion s k (Some a) bi bo silent = Inr s1
     \<and> length (bandwidth_changed s1) = length (bandwidth_changed s)
         + (if suggestion_changes (agents s ! k) (Some a) bi bo \<and> agent_active (agents s ! k)
               \<and> \<not> silent then 1 else 0)"
  using assms
  by (auto simp: envi_set_active_suggestion_def suggestion_changes_def Let_def
           split: option.splits)

text \<open>
  C9, amended. \<^verbatim>\<open>envi_set_active_suggestion\<close> of the solver never aborts; it calls
  \<^verbatim>\<open>bandwidth_changed_cb\<close> once when the suggestion differs from what the agent
  holds, the agent is active and the call is not silent, and not at all otherwise; a
  second call with the same address and bandwidths changes nothing and makes no
  call. \<^verbatim>\<open>update_bw_it\<close> of the registry has no such test: for an active address it
  always sends the address suggestion, the reservation and the performance
  notification, in this order.
\<close>

theorem suggestion_suppressed_by_solver_only:
  "(k < length (agents s) \<longrightarrow>
      (\<exists>s1. envi_set_active_suggestion s k new_address new_bw_in new_bw_out silent = Inr s1
          \<and> length (bandwidth_changed s1) = length (bandwidth_changed s)
              + (if suggestion_changes (agents s ! k) new_address new_bw_in new_bw_out
                    \<and> agent_active (agents s ! k) \<and> \<not> silent then 1 else 0)
          \<and> envi_set_active_suggestion s1 k new_address new_bw_in new_bw_out silent = Inr s1))
   \<and> (active (addresses st ! i) \<and> 0 < active_addr_count st \<longrightarrow>
        (\<exists>st'. update_bw_it i st = Inr st'
           \<and> calls st' = calls st @
                [Scheduling_transmit_address_suggestion (peer (addresses st ! i))
                   (plugin (addresses st ! i)) (addr (addresses st ! i))
                   (session_id (addresses st ! i)) (ats (addresses st ! i))
                   (ucast (wan_quota_out st div ucast (active_addr_count st)))
                   (ucast (wan_quota_in st div ucast (active_addr_count st))),
                 Reservations_set_bandwidth (peer (addresses st ! i))
                   (ucast (wan_quota_in st div ucast (active_addr_count st))),
                 Performance_notify_clients (peer (addresses st ! i))
                   (plugin (addresses st ! i)) (addr (addresses st ! i)) (ats (addresses st ! i))
                   (ucast (wan_quota_out st div ucast (active_addr_count st)))
                   (ucast (wan_quota_in st div ucast (active_addr_count st)))]))"
proof -
  have solver: "\<exists>s1. envi_set_active_suggestion s k new_address new_bw_in new_bw_out silent = Inr s1
          \<and> length (bandwidth_changed s1) = length (bandwidth_changed s)
              + (if suggestion_changes (agents s ! k) new_address new_bw_in new_bw_out
                    \<and> agent_active (agents s ! k) \<and> \<not> silent then 1 else 0)
          \<and> envi_set_active_suggestion s1 k new_address new_bw_in new_bw_out silent = Inr s1"
    if k: "k < length (agents s)"
  proof -
    obtain s1 where
      r: "envi_set_active_suggestion s k new_address new_bw_in new_bw_out silent = Inr s1"
      and l: "length (bandwidth_changed s1) = length (bandwidth_changed s)
              + (if suggestion_changes (agents s ! k) new_address new_bw_in new_bw_out
                    \<and> agent_active (agents s ! k) \<and> \<not> silent then 1 else 0)"
      using envi_set_active_suggestion_total_None [OF k, of new_bw_in new_bw_out silent]
        envi_set_active_suggestion_total_Some [OF k, of _ new_bw_in new_bw_out silent]
      by (cases new_address) auto
    show ?thesis
      using r l envi_set_active_suggestion_twice [OF k r, of silent] by blast
  qed
  have registry: "\<exists>st'. update_bw_it i st = Inr st'
           \<and> calls st' = calls st @
                [Scheduling_transmit_address_suggestion (peer (addresses st ! i))
                   (plugin (addresses st ! i)) (addr (addresses st ! i))
                   (session_id (addresses st ! i)) (ats (addresses st ! i))
                   (ucast (wan_quota_out st div ucast (active_addr_count st)))
                   (ucast (wan_quota_in st div ucast (active_addr_count st))),
                 Reservations_set_bandwidth (peer (addresses st ! i))
                   (ucast (wan_quota_in st div ucast (active_addr_count st))),
                 Performance_notify_clients (peer (addresses st ! i))
                   (plugin (addresses st ! i)) (addr (addresses st ! i)) (ats (addresses st ! i))
                   (ucast (wan_quota_out st div ucast (active_addr_count st)))
                   (ucast (wan_quota_in st div ucast (active_addr_count st)))]"
    if "active (addresses st ! i) \<and> 0 < active_addr_count st"
    using that by (simp add: update_bw_it_def Let_def)
  show ?thesis using solver registry by blast
qed

theorem suggestion_suppressed_by_solver_only_witness:
  "0 < length (agents (example_handle RIL_ALGO_Q))
   \<and> (\<exists>s1. envi_set_active_suggestion (example_handle RIL_ALGO_Q) 0 (Some 10) 4096 4096 False = Inr s1
        \<and> length (bandwidth_changed s1) = 1
        \<and> envi_set_active_suggestion s1 0 (Some 10) 4096 4096 False = Inr s1)
   \<and> active (addresses (projr (fairness_scenario 1000)) ! 0)
   \<and> 0 < active_addr_count (projr (fairness_scenario 1000))
   \<and> (\<exists>st'. update_bw_it 0 (projr (fairness_scenario 1000)) = Inr st'
        \<and> length (calls st') = length (calls (projr (fairness_scenario 1000))) + 3)"
proof -
  let ?H = "example_handle RIL_ALGO_Q"
  let ?S = "projr (fairness_scenario 1000)"
  have k: "0 < length (agents ?H)" by (simp add: example_handle_def)
  have ch: "suggestion_changes (agents ?H ! 0) (Some 10) 4096 4096"
    "agent_active (agents ?H ! 0)"
    by (simp_all add: suggestion_changes_def example_handle_def)
  have a: "active (addresses ?S ! 0)" and n: "0 < active_addr_count ?S"
    by (simp_all add: fairness_scenario_def registry_defs)
  note t = suggestion_suppressed_by_solver_only
             [of 0 ?H "Some 10" 4096 4096 False ?S 0]
  have "\<exists>s1. envi_set_active_suggestion ?H 0 (Some 10) 4096 4096 False = Inr s1
        \<and> length (bandwidth_changed s1) = 1
        \<and> envi_set_active_suggestion s1 0 (Some 10) 4096 4096 False = Inr s1"
    using t k ch by (auto simp: example_handle_def)
  moreover have "\<exists>st'. update_bw_it 0 ?S = Inr st' \<and> length (calls st') = length (calls ?S) + 3"
    using t a n by auto
  ultimately show ?thesis using k a n by blast
qed

theorem bandwidth_actions_keep_minimum_witness:
  "0 < length (agents (example_handle RIL_ALGO_Q))
   \<and> agent_active (agents (example_handle RIL_ALGO_Q) ! 0)
   \<and> address_inuse (agents (example_handle RIL_ALGO_Q) ! 0) \<noteq> None
   \<and> 5 * unat (DEFAULT_BW_IN_OUT example_constants) < 2 ^ 32
   \<and> (\<exists>s'. envi_do_action example_constants (example_handle RIL_ALGO_Q) 0 RIL_ACTION_BW_IN_HLV
               = Inr s'
         \<and> bw_in (agents s' ! 0) = 1024)
   \<and> (\<exists>s'. envi_do_action example_constants (example_handle RIL_ALGO_Q) 0 RIL_ACTION_BW_OUT_INC
               = Inr s'
         \<and> bw_out (agents s' ! 0) = 6144)"
proof -
  let ?H = "example_handle RIL_ALGO_Q"
  have k: "0 < length (agents ?H)" by (simp add: example_handle_def)
  have g: "agent_active (agents ?H ! 0) \<and> address_inuse (agents ?H ! 0) \<noteq> None"
    by (simp add: example_handle_def)
  have c: "5 * unat (DEFAULT_BW_IN_OUT example_constants) < 2 ^ 32"
    by (simp add: example_constants_def)
  have b: "bw_in (agents ?H ! 0) = 1024" "bw_out (agents ?H ! 0) = 1024"
    "DEFAULT_BW_IN_OUT example_constants = 1024"
    by (simp_all add: example_handle_def example_constants_def)
  note t = bandwidth_actions_keep_minimum [OF k g c]
  have "\<exists>s'. envi_do_action example_constants ?H 0 RIL_ACTION_BW_IN_HLV = Inr s'
         \<and> bw_in (agents s' ! 0) = 1024"
    using t b by auto
  moreover have "\<exists>s'. envi_do_action example_constants ?H 0 RIL_ACTION_BW_OUT_INC = Inr s'
         \<and> bw_out (agents s' ! 0) = 6144"
    using t b by auto
  ultimately show ?thesis using k g c by blast
qed

theorem rl_resize_preserves_weights_witness:
  "ril_find_agent (agents (example_handle RIL_ALGO_Q)) 1 0 = Some 0
   \<and> agent_addresses (agents (example_handle RIL_ALGO_Q) ! 0) = [10]
   \<and> ril_get_network (example_handle RIL_ALGO_Q) GNUNET_ATS_NET_WAN = Some 0
   \<and> \<not> bw_out_available (network_entries (example_handle RIL_ALGO_Q) ! 0)
         < ucast (DEFAULT_BW_IN_OUT example_constants)
   \<and> (\<exists>s1. GAS_ril_address_add example_constants (example_handle RIL_ALGO_Q) 11 GNUNET_ATS_NET_WAN
               = Inr s1
         \<and> agent_n (agents s1 ! 0) = 11 \<and> agent_m (agents s1 ! 0) = 14
         \<and> agent_addresses (agents s1 ! 0) = [10, 11]
         \<and> (\<exists>s2. GAS_ril_address_delete example_constants (with_last_action s1 0 10) 10 False
                     = Inr s2
               \<and> agent_n (agents s2 ! 0) = 10 \<and> agent_m (agents s2 ! 0) = 9
               \<and> agent_addresses (agents s2 ! 0) = [11]
               \<and> a_old (agents s2 ! 0) = 9))"
proof -
  let ?H = "example_handle RIL_ALGO_Q"
  let ?c = "example_constants"
  have find: "ril_find_agent (agents ?H) 1 0 = Some 0" by (simp add: example_handle_def)
  have p0: "address_peer (heap ?H 10) = 1" and p1: "address_peer (heap ?H 11) = 1"
    by (simp_all add: example_handle_def)
  have one: "agent_addresses (agents ?H ! 0) = [10]" by (simp add: example_handle_def)
  have m: "agent_m (agents ?H ! 0) = 4 * length (network_entries ?H) + (3 + QualityPropertiesCount ?c)"
    by (simp add: example_handle_def example_constants_def)
  have n: "agent_n (agents ?H ! 0) = 10" by (simp add: example_handle_def)
  have wfn: "length (agent_W (agents ?H ! 0)) = 10" by (simp add: example_handle_def)
  have wfm: "\<forall>row \<in> set (agent_W (agents ?H ! 0)). length row = agent_m (agents ?H ! 0)"
    by (simp add: example_handle_def)
  have wfs: "length (s_old (agents ?H ! 0)) = agent_m (agents ?H ! 0)"
    by (simp add: example_handle_def)
  have wfe: "length (agent_e (agents ?H ! 0)) = agent_m (agents ?H ! 0)"
    by (simp add: example_handle_def)
  have net: "ril_get_network ?H GNUNET_ATS_NET_WAN = Some 0"
    by (simp add: example_handle_def ril_get_network_def)
  have act: "\<not> bw_out_available (network_entries ?H ! 0) < ucast (DEFAULT_BW_IN_OUT ?c)"
    by (simp add: example_handle_def example_constants_def)
  have mm: "agent_m (agents ?H ! 0) = 9" "QualityPropertiesCount ?c = 2"
    by (simp_all add: example_handle_def example_constants_def)
  note resize = rl_resize_preserves_weights [OF find p0 p1 one m n wfn wfm wfs wfe net, of False,
                  unfolded if_not_P [OF act]]
  from resize obtain s1 where
    a: "GAS_ril_address_add ?c ?H 11 GNUNET_ATS_NET_WAN = Inr s1"
    and b: "agent_n (agents s1 ! 0) = 11"
      "agent_m (agents s1 ! 0) = agent_m (agents ?H ! 0) + (3 + QualityPropertiesCount ?c)"
      "agent_addresses (agents s1 ! 0) = [10, 11]"
    and d: "\<forall>a. \<exists>s2. GAS_ril_address_delete ?c (with_last_action s1 0 a) 10 False = Inr s2
            \<and> agent_n (agents s2 ! 0) = 10
            \<and> agent_m (agents s2 ! 0) = agent_m (agents ?H ! 0)
            \<and> length (agent_W (agents s2 ! 0)) = 10
            \<and> (\<forall>i < 9. agent_W (agents s2 ! 0) ! i
                   = take (4 * length (network_entries ?H)) (agent_W (agents ?H ! 0) ! i)
                       @ replicate (3 + QualityPropertiesCount ?c) 0)
            \<and> agent_W (agents s2 ! 0) ! 9 = replicate (agent_m (agents ?H ! 0)) 0
            \<and> agent_addresses (agents s2 ! 0) = [11]
            \<and> a_old (agents s2 ! 0) =
                (if a > 9 then a - 1 else if a = 9 then RIL_ACTION_INVALID else a)"
    by blast
  from d [rule_format, of 10] obtain s2 where
    e: "GAS_ril_address_delete ?c (with_last_action s1 0 10) 10 False = Inr s2"
      "agent_n (agents s2 ! 0) = 10" "agent_m (agents s2 ! 0) = agent_m (agents ?H ! 0)"
      "agent_addresses (agents s2 ! 0) = [11]"
      "a_old (agents s2 ! 0) = (if (10::int) > 9 then 10 - 1 else if (10::int) = 9 then RIL_ACTION_INVALID else 10)"
    by blast
  have "a_old (agents s2 ! 0) = 9" using e(5) by simp
  then show ?thesis
    using find one net act a b e(1-4) mm by auto
qed

end
